theory Spec2Isabelle
  imports Complex_Main
begin

section \<open>The wave-equation script \<open>docs/scripts/fd.f.py\<close>\<close>

text \<open>
  The script solves the 2-d wave equation with an RBF-FD scheme. Its only local
  function is the time-derivative evaluator \<open>f\<close>. Arrays of floats are modelled as
  lists of reals (exact arithmetic), the sparse matrices returned by
  \<open>weight_matrix\<close> as a shape and a coefficient function, and every exception that
  numpy or scipy raises as a value of type \<open>error\<close>.
\<close>

subsection \<open>Arrays, sparse matrices and the numpy operations used by \<open>f\<close>\<close>

datatype error = ValueError | IndexError | SolverError

type_synonym vec = "real list"

record spmatrix =
  nrows :: nat
  ncols :: nat
  coef :: "nat \<Rightarrow> nat \<Rightarrow> real"

text \<open>\<open>v.reshape((2,-1))\<close> on a 1-d array: two rows of equal length, ValueError when
  the size is odd.\<close>

definition reshape2 :: "vec \<Rightarrow> error + (vec \<times> vec)" where
  "reshape2 v =
     (if even (length v)
      then Inr (take (length v div 2) v, drop (length v div 2) v)
      else Inl ValueError)"

text \<open>\<open>np.empty(n)\<close>: a fresh array of \<open>n\<close> entries whose contents are whatever the
  allocator left there; \<open>junk\<close> stands for these contents.\<close>

definition np_empty :: "(nat \<Rightarrow> real) \<Rightarrow> nat \<Rightarrow> vec" where
  "np_empty junk n = map junk [0..<n]"

text \<open>Broadcasting of a 1-d value to a 1-d shape of \<open>k\<close> entries: equal lengths, or a
  single entry that is repeated.\<close>

definition broadcast_to :: "nat \<Rightarrow> vec \<Rightarrow> error + vec" where
  "broadcast_to k xs =
     (if length xs = k then Inr xs
      else if length xs = 1 then Inr (replicate k (hd xs))
      else Inl ValueError)"

text \<open>The assignments \<open>u[idx[0]] = xs[0]; u[idx[1]] = xs[1]; ...\<close> in index order
  (a repeated index keeps the last value).\<close>

fun scatter :: "vec \<Rightarrow> nat list \<Rightarrow> vec \<Rightarrow> vec" where
  "scatter u (i # idx) (x # xs) = scatter (u[i := x]) idx xs"
| "scatter u _ _ = u"

text \<open>\<open>u[idx] = vals\<close> with a list of indices: the value is broadcast to the index
  shape (ValueError when it cannot be), an index past the end raises IndexError.\<close>

definition set_items :: "vec \<Rightarrow> nat list \<Rightarrow> vec \<Rightarrow> error + vec" where
  "set_items u idx vals =
     (case broadcast_to (length idx) vals of
        Inl e \<Rightarrow> Inl e
      | Inr xs \<Rightarrow>
          if list_all (\<lambda>i. i < length u) idx then Inr (scatter u idx xs)
          else Inl IndexError)"

text \<open>\<open>M[:, js]\<close>: the columns of \<open>M\<close> listed in \<open>js\<close>, in that order; an index past
  the last column raises IndexError.\<close>

definition take_cols :: "spmatrix \<Rightarrow> nat list \<Rightarrow> spmatrix" where
  "take_cols M js = \<lparr>nrows = nrows M, ncols = length js, coef = (\<lambda>i k. coef M i (js ! k))\<rparr>"

definition get_cols :: "spmatrix \<Rightarrow> nat list \<Rightarrow> error + spmatrix" where
  "get_cols M js =
     (if list_all (\<lambda>j. j < ncols M) js then Inr (take_cols M js) else Inl IndexError)"

text \<open>The matrix-vector product, and \<open>M.dot(x)\<close> with its dimension check.\<close>

definition mat_vec :: "spmatrix \<Rightarrow> vec \<Rightarrow> vec" where
  "mat_vec M x =
     map (\<lambda>i. sum_list (map (\<lambda>j. coef M i j * x ! j) [0..<ncols M])) [0..<nrows M]"

definition dot :: "spmatrix \<Rightarrow> vec \<Rightarrow> error + vec" where
  "dot M x = (if length x = ncols M then Inr (mat_vec M x) else Inl ValueError)"

text \<open>\<open>xs - ys\<close> on 1-d arrays, with numpy's broadcasting of a one-entry operand.\<close>

definition np_sub :: "vec \<Rightarrow> vec \<Rightarrow> error + vec" where
  "np_sub xs ys =
     (if length xs = length ys then Inr (map2 (-) xs ys)
      else if length xs = 1 then Inr (map (\<lambda>y. hd xs - y) ys)
      else if length ys = 1 then Inr (map (\<lambda>x. x - hd ys) xs)
      else Inl ValueError)"

text \<open>\<open>np.hstack([a, b])\<close> on two 1-d arrays.\<close>

definition hstack :: "vec \<Rightarrow> vec \<Rightarrow> vec" where
  "hstack a b = a @ b"

subsection \<open>The module-level data read by \<open>f\<close>\<close>

text \<open>The global names that \<open>f\<close> reads: \<open>nodes\<close> (after the ghost nodes were
  appended), the index lists, the two operators and the boundary values.\<close>

record env =
  nodes :: "(real \<times> real) list"
  interior :: "nat list"
  boundary :: "nat list"
  ghost :: "nat list"
  D :: spmatrix
  dD :: spmatrix
  u_bnd :: vec

text \<open>\<open>scipy.sparse.linalg.spsolve\<close> is outside the repository: the evaluator takes it
  as a parameter.\<close>

type_synonym solver = "spmatrix \<Rightarrow> vec \<Rightarrow> error + vec"

subsection \<open>The time-derivative evaluator\<close>

text \<open>Lines 50 to 55 of the script: the array \<open>u\<close> once the ghost values are stored,
  from the displacement row \<open>v[0]\<close>.\<close>

definition ghost_fill :: "env \<Rightarrow> solver \<Rightarrow> (nat \<Rightarrow> real) \<Rightarrow> vec \<Rightarrow> error + vec" where
  "ghost_fill e spsolve junk v0 =
     (case set_items (np_empty junk (length (nodes e))) (interior e @ boundary e) v0 of
        Inl err \<Rightarrow> Inl err
      | Inr u1 \<Rightarrow>
     (case get_cols (dD e) (ghost e) of
        Inl err \<Rightarrow> Inl err
      | Inr A \<Rightarrow>
     (case get_cols (dD e) (interior e @ boundary e) of
        Inl err \<Rightarrow> Inl err
      | Inr B \<Rightarrow>
     (case dot B v0 of
        Inl err \<Rightarrow> Inl err
      | Inr y \<Rightarrow>
     (case np_sub (u_bnd e) y of
        Inl err \<Rightarrow> Inl err
      | Inr rhs \<Rightarrow>
     (case spsolve A rhs of
        Inl err \<Rightarrow> Inl err
      | Inr x \<Rightarrow> set_items u1 (ghost e) x))))))"

text \<open>The function \<open>f(t, v)\<close>.\<close>

definition f :: "env \<Rightarrow> solver \<Rightarrow> (nat \<Rightarrow> real) \<Rightarrow> real \<Rightarrow> vec \<Rightarrow> error + vec" where
  "f e spsolve junk t v =
     (case reshape2 v of
        Inl err \<Rightarrow> Inl err
      | Inr (v0, v1) \<Rightarrow>
     (case ghost_fill e spsolve junk v0 of
        Inl err \<Rightarrow> Inl err
      | Inr u \<Rightarrow>
     (case dot (D e) u of
        Inl err \<Rightarrow> Inl err
      | Inr a \<Rightarrow> Inr (hstack v1 a))))"

subsection \<open>Well-formed module data and the solver's contract\<close>

text \<open>What the set-up part of the script establishes: the three index lists are
  disjoint and together enumerate all nodes, there is one ghost node per boundary node,
  and the operators and boundary values have the matching shapes.\<close>

definition wf_env :: "env \<Rightarrow> bool" where
  "wf_env e \<longleftrightarrow>
     distinct (interior e @ boundary e @ ghost e) \<and>
     set (interior e @ boundary e @ ghost e) = {0..<length (nodes e)} \<and>
     length (ghost e) = length (boundary e) \<and>
     nrows (D e) = length (interior e @ boundary e) \<and>
     ncols (D e) = length (nodes e) \<and>
     nrows (dD e) = length (boundary e) \<and>
     ncols (dD e) = length (nodes e) \<and>
     length (u_bnd e) = length (boundary e)"

text \<open>A direct solver under exact arithmetic returns a solution of \<open>A x = b\<close>; the
  matrix is non-singular when it is square and only the zero vector is mapped to zero.\<close>

definition solves_exactly :: "solver \<Rightarrow> spmatrix \<Rightarrow> bool" where
  "solves_exactly spsolve A \<longleftrightarrow>
     (\<forall>b. length b = nrows A \<longrightarrow>
        (\<exists>x. spsolve A b = Inr x \<and> length x = ncols A \<and> mat_vec A x = b))"

definition nonsingular :: "spmatrix \<Rightarrow> bool" where
  "nonsingular A \<longleftrightarrow>
     nrows A = ncols A \<and>
     (\<forall>x. length x = ncols A \<longrightarrow> mat_vec A x = replicate (nrows A) 0 \<longrightarrow>
        x = replicate (ncols A) 0)"

text \<open>The ghost-column block \<open>dD[:, ghost]\<close> of a well-formed environment.\<close>

definition ghost_matrix :: "env \<Rightarrow> spmatrix" where
  "ghost_matrix e = take_cols (dD e) (ghost e)"

text \<open>The block \<open>dD[:, interior+boundary]\<close> of the known values, and the right-hand side
  \<open>u_bnd - dD[:, interior+boundary].dot(v[0])\<close> of the ghost system.\<close>

definition known_matrix :: "env \<Rightarrow> spmatrix" where
  "known_matrix e = take_cols (dD e) (interior e @ boundary e)"

definition ghost_rhs :: "env \<Rightarrow> vec \<Rightarrow> vec" where
  "ghost_rhs e v0 = map2 (-) (u_bnd e) (mat_vec (known_matrix e) v0)"

text \<open>The combination \<open>a*x + b*y\<close> of two arrays of equal length.\<close>

definition lincomb :: "real \<Rightarrow> vec \<Rightarrow> real \<Rightarrow> vec \<Rightarrow> vec" where
  "lincomb a x b y = map2 (+) (map ((*) a) x) (map ((*) b) y)"

subsection \<open>A three-node instance\<close>

text \<open>One interior node, one boundary node and its ghost node on a line, with a
  direct solver for systems of one equation.\<close>

definition env3 :: env where
  "env3 =
     \<lparr>nodes = [(0, 0), (1, 0), (3 / 2, 0)],
      interior = [0], boundary = [1], ghost = [2],
      D = \<lparr>nrows = 2, ncols = 3, coef = (\<lambda>i j. if i = j then - 2 else 1)\<rparr>,
      dD = \<lparr>nrows = 1, ncols = 3,
             coef = (\<lambda>i j. if j = 2 then 2 else if j = 1 then - 2 else 0)\<rparr>,
      u_bnd = [0]\<rparr>"

definition spsolve_1x1 :: solver where
  "spsolve_1x1 A b =
     (if nrows A = 1 \<and> ncols A = 1 \<and> length b = 1 \<and> coef A 0 0 \<noteq> 0
      then Inr [hd b / coef A 0 0] else Inl SolverError)"

subsection \<open>The set-up part of the script (lines 20 to 41)\<close>

type_synonym point = "real \<times> real"

text \<open>\<open>np.nonzero(mask)[0].tolist()\<close>: the indices at which the mask is true, in
  increasing order.\<close>

definition nonzero :: "bool list \<Rightarrow> nat list" where
  "nonzero flags = filter (\<lambda>i. flags ! i) [0..<length flags]"

text \<open>\<open>a[idx]\<close> with a list of non-negative indices (the rows of \<open>a\<close> listed in
  \<open>idx\<close>), and with integer indices, where a negative index counts from the end.\<close>

definition get_rows :: "'a list \<Rightarrow> nat list \<Rightarrow> error + 'a list" where
  "get_rows a idx =
     (if list_all (\<lambda>i. i < length a) idx then Inr (map ((!) a) idx) else Inl IndexError)"

definition wrap_index :: "nat \<Rightarrow> int \<Rightarrow> int" where
  "wrap_index n i = (if i < 0 then int n + i else i)"

definition get_rows_int :: "'a list \<Rightarrow> int list \<Rightarrow> error + 'a list" where
  "get_rows_int a idx =
     (if list_all (\<lambda>i. 0 \<le> wrap_index (length a) i \<and> wrap_index (length a) i < int (length a)) idx
      then Inr (map (\<lambda>i. a ! nat (wrap_index (length a) i)) idx)
      else Inl IndexError)"

text \<open>\<open>a[:, j]\<close> on a 2-d array given by its rows, and \<open>np.min\<close> of a 1-d array
  (ValueError on an empty array).\<close>

definition get_col :: "real list list \<Rightarrow> nat \<Rightarrow> error + vec" where
  "get_col rows j =
     (if list_all (\<lambda>r. j < length r) rows then Inr (map (\<lambda>r. r ! j) rows)
      else Inl IndexError)"

definition np_min :: "vec \<Rightarrow> error + real" where
  "np_min xs = (case xs of [] \<Rightarrow> Inl ValueError | x # ys \<Rightarrow> Inr (fold min ys x))"

text \<open>
  Modelled from the spec: \<open>rbf.nodes.neighbors\<close> is not among the sources. The spec
  describes the neighbour query as: given a point set, it returns each point's k nearest
  neighbours and their distances. The script uses the distance array only
  (\<open>neighbors(nodes,2)[1]\<close>): row \<open>i\<close> holds the k smallest Euclidean distances from
  point \<open>i\<close> to the points of the set, the point itself included, in increasing order.
\<close>

definition euclid_dist :: "point \<Rightarrow> point \<Rightarrow> real" where
  "euclid_dist p q = sqrt ((fst p - fst q)\<^sup>2 + (snd p - snd q)\<^sup>2)"

definition neighbors_dist :: "point list \<Rightarrow> nat \<Rightarrow> real list list" where
  "neighbors_dist pts k = map (\<lambda>p. take k (sort (map (euclid_dist p) pts))) pts"

text \<open>Line 25: the outward normal of each boundary node, looked up by the id of the
  boundary segment the node lies on; \<open>snormals\<close> is the array returned by
  \<open>simplex_outward_normals(vert,smp)\<close>.\<close>

definition boundary_normals :: "point list \<Rightarrow> int list \<Rightarrow> nat list \<Rightarrow> error + point list" where
  "boundary_normals snormals smpid bnd =
     (case get_rows smpid bnd of
        Inl err \<Rightarrow> Inl err
      | Inr ids \<Rightarrow> get_rows_int snormals ids)"

text \<open>Line 27: \<open>dx = np.min(neighbors(nodes,2)[1][:,1])\<close>.\<close>

definition min_spacing :: "point list \<Rightarrow> error + real" where
  "min_spacing pts =
     (case get_col (neighbors_dist pts 2) 1 of
        Inl err \<Rightarrow> Inl err
      | Inr col \<Rightarrow> np_min col)"

text \<open>Line 29: the ghost points \<open>nodes[boundary] + 0.5*dx*normals\<close>.\<close>

definition ghost_points :: "point list \<Rightarrow> real \<Rightarrow> point list \<Rightarrow> point list" where
  "ghost_points bpts dx normals =
     map2 (\<lambda>p nrm. (fst p + 0.5 * dx * fst nrm, snd p + 0.5 * dx * snd nrm)) bpts normals"

text \<open>Lines 35 to 37: the initial displacement at a node.\<close>

definition u_init_at :: "point \<Rightarrow> real" where
  "u_init_at p =
     1 / (1 + (sqrt ((fst p - 0.5)\<^sup>2 + (snd p - 0.5)\<^sup>2) / 0.05) ^ 4)"

text \<open>
  \<open>rbf.fd.weight_matrix\<close> is not among the sources either; the script takes it as a
  parameter here: evaluation points, source points, derivative orders, optional
  coefficients and stencil size give a sparse matrix or an error.
\<close>

type_synonym weight_builder =
  "point list \<Rightarrow> point list \<Rightarrow> (nat \<times> nat) list \<Rightarrow> real list list option \<Rightarrow> nat
     \<Rightarrow> error + spmatrix"

text \<open>Lines 20 to 41. \<open>N\<close> is the requested number of nodes, \<open>nodes0\<close> and \<open>smpid\<close> are
  the two arrays returned by \<open>menodes(N,vert,smp)\<close>. The result is the module data read
  by \<open>f\<close> and the initial state vector \<open>v\<close>.\<close>

definition script_setup ::
  "nat \<Rightarrow> point list \<Rightarrow> int list \<Rightarrow> point list \<Rightarrow> weight_builder \<Rightarrow> error + (env \<times> vec)" where
  "script_setup N nodes0 smpid snormals weight_matrix =
     (let interior0 = nonzero (map (\<lambda>s. s = - 1) smpid);
          boundary0 = nonzero (map (\<lambda>s. 0 \<le> s) smpid)
      in
     (case boundary_normals snormals smpid boundary0 of
        Inl err \<Rightarrow> Inl err
      | Inr normals \<Rightarrow>
     (case min_spacing nodes0 of
        Inl err \<Rightarrow> Inl err
      | Inr dx \<Rightarrow>
     (case get_rows nodes0 boundary0 of
        Inl err \<Rightarrow> Inl err
      | Inr bpts \<Rightarrow>
     (let nodes1 = nodes0 @ ghost_points bpts dx normals;
          ghost0 = [N..<N + length boundary0]
      in
     (case get_rows nodes1 (interior0 @ boundary0) of
        Inl err \<Rightarrow> Inl err
      | Inr ibpts \<Rightarrow>
     (case weight_matrix ibpts nodes1 [(2, 0), (0, 2)] None 30 of
        Inl err \<Rightarrow> Inl err
      | Inr D0 \<Rightarrow>
     (case get_rows nodes1 boundary0 of
        Inl err \<Rightarrow> Inl err
      | Inr bpts1 \<Rightarrow>
     (case weight_matrix bpts1 nodes1 [(1, 0), (0, 1)]
             (Some [map fst normals, map snd normals]) 30 of
        Inl err \<Rightarrow> Inl err
      | Inr dD0 \<Rightarrow>
          Inr (\<lparr>nodes = nodes1, interior = interior0, boundary = boundary0, ghost = ghost0,
                D = D0, dD = dD0, u_bnd = replicate (length boundary0) 0\<rparr>,
               hstack (map u_init_at ibpts) (replicate N 0)))))))))))"

text \<open>The shape of the matrix that \<open>weight_matrix\<close> returns: one row per evaluation
  point, one column per source point.\<close>

definition shape_contract :: "weight_builder \<Rightarrow> bool" where
  "shape_contract weight_matrix \<longleftrightarrow>
     (\<forall>x p orders coeffs n M. weight_matrix x p orders coeffs n = Inr M \<longrightarrow>
        nrows M = length x \<and> ncols M = length p)"

text \<open>What the spec says of the node generator: it returns the points and, for each
  point, the id of its boundary edge or -1 for an interior point.\<close>

definition menodes_contract :: "nat \<Rightarrow> point list \<Rightarrow> int list \<Rightarrow> bool" where
  "menodes_contract N nodes0 smpid \<longleftrightarrow>
     length nodes0 = N \<and> length smpid = N \<and> list_all (\<lambda>s. - 1 \<le> s) smpid"

text \<open>A weight builder for the three-node instance: it returns the operators of
  \<open>env3\<close> with the shape the script asks for.\<close>

definition weight_matrix3 :: weight_builder where
  "weight_matrix3 x p orders coeffs n =
     Inr \<lparr>nrows = length x, ncols = length p,
          coef = (case coeffs of
                    None \<Rightarrow> (\<lambda>i j. if i = j then - 2 else 1)
                  | Some c \<Rightarrow> (\<lambda>i j. if j = 2 then 2 else if j = 1 then - 2 else 0))\<rparr>"

subsection \<open>The integration driver (lines 60 to 66)\<close>

text \<open>
  \<open>scipy.integrate.ode\<close> is outside the repository. One call
  \<open>integrator.integrate(t)\<close> is a parameter: from the right-hand side, the current time
  and state, and the requested time, it returns the new state or fails.
\<close>

type_synonym rhs = "real \<Rightarrow> vec \<Rightarrow> error + vec"

type_synonym integrator = "rhs \<Rightarrow> real \<Rightarrow> vec \<Rightarrow> real \<Rightarrow> error + vec"

text \<open>The loop over the output times: each round integrates to the next time, reshapes
  the state into its two rows and appends the displacement row to \<open>soln\<close>.\<close>

fun integrate_all ::
  "integrator \<Rightarrow> rhs \<Rightarrow> real \<Rightarrow> vec \<Rightarrow> real list \<Rightarrow> vec list \<Rightarrow> error + (vec \<times> vec list)" where
  "integrate_all ig g t0 y [] soln = Inr (y, soln)"
| "integrate_all ig g t0 y (t # ts) soln =
     (case ig g t0 y t of
        Inl err \<Rightarrow> Inl err
      | Inr y' \<Rightarrow>
     (case reshape2 y' of
        Inl err \<Rightarrow> Inl err
      | Inr (v0, v1) \<Rightarrow> integrate_all ig g t y' ts (soln @ [v0])))"

text \<open>What is assumed of the integrator: when the right-hand side returns vectors as
  long as the state, so does the integrator.\<close>

definition keeps_length :: "integrator \<Rightarrow> bool" where
  "keeps_length ig \<longleftrightarrow>
     (\<forall>g t0 y0 t1 y1.
        (\<forall>t y r. length y = length y0 \<longrightarrow> g t y = Inr r \<longrightarrow> length r = length y0) \<longrightarrow>
        ig g t0 y0 t1 = Inr y1 \<longrightarrow> length y1 = length y0)"

text \<open>An integrator for the three-node instance: one explicit Euler step.\<close>

definition euler_step :: integrator where
  "euler_step g t0 y0 t1 =
     (case g t0 y0 of
        Inl err \<Rightarrow> Inl err
      | Inr k \<Rightarrow> Inr (map2 (\<lambda>y d. y + (t1 - t0) * d) y0 k))"

subsection \<open>The evaluator on a store of array buffers\<close>

text \<open>
  To follow what a call of \<open>f\<close> writes, the float arrays live in a store: a list of
  buffers, addressed by position. An array object is a view of a buffer (numpy's
  \<open>reshape\<close> and row indexing return views that share the buffer of their base array).
  The module data that \<open>f\<close> only measures, concatenates or passes to the indexing and
  \<open>dot\<close> operators (\<open>nodes\<close>, the three index lists, \<open>D\<close>, \<open>dD\<close>) is held by value in the
  record of global names; \<open>u_bnd\<close> and the state vector are arrays in the store.
\<close>

type_synonym heap = "vec list"

record ndarray =
  a_buf :: nat
  a_off :: nat
  a_len :: nat

record world =
  w_nodes :: "(real \<times> real) list"
  w_interior :: "nat list"
  w_boundary :: "nat list"
  w_ghost :: "nat list"
  w_D :: spmatrix
  w_dD :: spmatrix
  w_u_bnd :: ndarray
  w_heap :: heap

definition read_arr :: "heap \<Rightarrow> ndarray \<Rightarrow> vec" where
  "read_arr h a = take (a_len a) (drop (a_off a) (h ! a_buf a))"

text \<open>A new array: a new buffer at the end of the store.\<close>

definition alloc :: "heap \<Rightarrow> vec \<Rightarrow> ndarray \<times> heap" where
  "alloc h xs = (\<lparr>a_buf = length h, a_off = 0, a_len = length xs\<rparr>, h @ [xs])"

text \<open>\<open>v.reshape((2,-1))\<close>: the two rows are views of the buffer of \<open>v\<close>.\<close>

definition reshape2_st :: "ndarray \<Rightarrow> error + (ndarray \<times> ndarray)" where
  "reshape2_st v =
     (if even (a_len v)
      then Inr (v\<lparr>a_len := a_len v div 2\<rparr>,
                v\<lparr>a_off := a_off v + a_len v div 2, a_len := a_len v div 2\<rparr>)
      else Inl ValueError)"

text \<open>\<open>u[idx] = vals\<close>: the entries are written into the buffer of \<open>u\<close>, one by one.\<close>

fun write_items :: "heap \<Rightarrow> ndarray \<Rightarrow> nat list \<Rightarrow> vec \<Rightarrow> heap" where
  "write_items h u (i # idx) (x # xs) =
     write_items (h[a_buf u := (h ! a_buf u)[a_off u + i := x]]) u idx xs"
| "write_items h u _ _ = h"

definition set_items_st :: "heap \<Rightarrow> ndarray \<Rightarrow> nat list \<Rightarrow> vec \<Rightarrow> error + heap" where
  "set_items_st h u idx vals =
     (case broadcast_to (length idx) vals of
        Inl e \<Rightarrow> Inl e
      | Inr xs \<Rightarrow>
          if list_all (\<lambda>i. i < a_len u) idx then Inr (write_items h u idx xs)
          else Inl IndexError)"

text \<open>The function \<open>f(t, v)\<close> on the store: the result, an error or the array returned,
  and the global names and store after the call. The steps are those of lines 50 to 57,
  in their order: \<open>u\<close> and the array returned are new buffers; the column selections of
  \<open>dD\<close>, the product, the difference and the solution of \<open>spsolve\<close> are new objects that
  only the next operation reads, and are kept as values.\<close>

definition f_store ::
  "world \<Rightarrow> solver \<Rightarrow> (nat \<Rightarrow> real) \<Rightarrow> real \<Rightarrow> ndarray \<Rightarrow> (error + ndarray) \<times> world" where
  "f_store w spsolve junk t v =
     (case reshape2_st v of
        Inl err \<Rightarrow> (Inl err, w)
      | Inr (v0, v1) \<Rightarrow>
     (case alloc (w_heap w) (np_empty junk (length (w_nodes w))) of (u, h1) \<Rightarrow>
     (case set_items_st h1 u (w_interior w @ w_boundary w) (read_arr h1 v0) of
        Inl err \<Rightarrow> (Inl err, w\<lparr>w_heap := h1\<rparr>)
      | Inr h2 \<Rightarrow>
     (case get_cols (w_dD w) (w_ghost w) of
        Inl err \<Rightarrow> (Inl err, w\<lparr>w_heap := h2\<rparr>)
      | Inr A \<Rightarrow>
     (case get_cols (w_dD w) (w_interior w @ w_boundary w) of
        Inl err \<Rightarrow> (Inl err, w\<lparr>w_heap := h2\<rparr>)
      | Inr B \<Rightarrow>
     (case dot B (read_arr h2 v0) of
        Inl err \<Rightarrow> (Inl err, w\<lparr>w_heap := h2\<rparr>)
      | Inr y \<Rightarrow>
     (case np_sub (read_arr h2 (w_u_bnd w)) y of
        Inl err \<Rightarrow> (Inl err, w\<lparr>w_heap := h2\<rparr>)
      | Inr rhs \<Rightarrow>
     (case spsolve A rhs of
        Inl err \<Rightarrow> (Inl err, w\<lparr>w_heap := h2\<rparr>)
      | Inr x \<Rightarrow>
     (case set_items_st h2 u (w_ghost w) x of
        Inl err \<Rightarrow> (Inl err, w\<lparr>w_heap := h2\<rparr>)
      | Inr h3 \<Rightarrow>
     (case dot (w_D w) (read_arr h3 u) of
        Inl err \<Rightarrow> (Inl err, w\<lparr>w_heap := h3\<rparr>)
      | Inr a \<Rightarrow>
     (case alloc h3 (hstack (read_arr h3 v1) a) of (r, h4) \<Rightarrow>
        (Inr r, w\<lparr>w_heap := h4\<rparr>))))))))))))"

text \<open>The module data as \<open>f\<close> sees it, and an array that lies within the store.\<close>

definition env_of :: "world \<Rightarrow> env" where
  "env_of w =
     \<lparr>nodes = w_nodes w, interior = w_interior w, boundary = w_boundary w,
      ghost = w_ghost w, D = w_D w, dD = w_dD w,
      u_bnd = read_arr (w_heap w) (w_u_bnd w)\<rparr>"

definition valid_arr :: "heap \<Rightarrow> ndarray \<Rightarrow> bool" where
  "valid_arr h a \<longleftrightarrow> a_buf a < length h \<and> a_off a + a_len a \<le> length (h ! a_buf a)"

text \<open>A store \<open>h'\<close> extends \<open>h\<close>: the buffers of \<open>h\<close> are in \<open>h'\<close>, with their contents.\<close>

definition extends :: "heap \<Rightarrow> heap \<Rightarrow> bool" where
  "extends h h' \<longleftrightarrow> length h \<le> length h' \<and> (\<forall>b<length h. h' ! b = h ! b)"

text \<open>The calls of \<open>f\<close> that an integrator makes during a run, one after the other; between
  two calls the integrator may create arrays of its own.\<close>

datatype request = Call real ndarray | New vec

fun f_calls :: "world \<Rightarrow> solver \<Rightarrow> (nat \<Rightarrow> real) \<Rightarrow> request list \<Rightarrow> world" where
  "f_calls w spsolve junk [] = w"
| "f_calls w spsolve junk (Call t v # rs) =
     f_calls (snd (f_store w spsolve junk t v)) spsolve junk rs"
| "f_calls w spsolve junk (New xs # rs) =
     f_calls (w\<lparr>w_heap := snd (alloc (w_heap w) xs)\<rparr>) spsolve junk rs"

text \<open>A store for the module data \<open>env3\<close>: buffer 0 holds \<open>u_bnd\<close>, buffer 1 the state
  vector.\<close>

definition world3 :: world where
  "world3 =
     \<lparr>w_nodes = [(0, 0), (1, 0), (3 / 2, 0)],
      w_interior = [0], w_boundary = [1], w_ghost = [2],
      w_D = \<lparr>nrows = 2, ncols = 3, coef = (\<lambda>i j. if i = j then - 2 else 1)\<rparr>,
      w_dD = \<lparr>nrows = 1, ncols = 3,
               coef = (\<lambda>i j. if j = 2 then 2 else if j = 1 then - 2 else 0)\<rparr>,
      w_u_bnd = \<lparr>a_buf = 0, a_off = 0, a_len = 1\<rparr>,
      w_heap = [[0], [1, 2, 3, 4]]\<rparr>"

definition v3 :: ndarray where
  "v3 = \<lparr>a_buf = 1, a_off = 0, a_len = 4\<rparr>"

section \<open>Properties\<close>

subsection \<open>Index assignment\<close>

lemma length_scatter: "length (scatter u idx xs) = length u"
  by (induction u idx xs rule: scatter.induct) simp_all

lemma scatter_other: "i \<notin> set idx \<Longrightarrow> scatter u idx xs ! i = u ! i"
  by (induction u idx xs rule: scatter.induct) auto

lemma scatter_nth:
  "distinct idx \<Longrightarrow> length xs = length idx \<Longrightarrow> k < length idx \<Longrightarrow> idx ! k < length u
   \<Longrightarrow> scatter u idx xs ! (idx ! k) = xs ! k"
proof (induction idx arbitrary: u xs k)
  case Nil
  then show ?case by simp
next
  case (Cons i idx)
  then obtain x xs' where xs: "xs = x # xs'"
    by (cases xs) auto
  show ?case
  proof (cases k)
    case 0
    with Cons.prems xs show ?thesis
      by (simp add: scatter_other)
  next
    case (Suc k')
    with Cons.prems xs show ?thesis
      using Cons.IH [of xs' k' "u[i := x]"] by simp
  qed
qed

subsection \<open>The evaluator on well-formed data\<close>


lemma reshape2_even: "length v = 2 * m \<Longrightarrow> reshape2 v = Inr (take m v, drop m v)"
  by (simp add: reshape2_def)

lemma reshape2_Inr: "reshape2 v = Inr (v0, v1) \<Longrightarrow> length v0 = length v1 \<and> v = v0 @ v1"
  by (auto simp: reshape2_def split: if_splits)

lemma broadcast_to_length: "broadcast_to k xs = Inr ys \<Longrightarrow> length ys = k"
  by (auto simp: broadcast_to_def split: if_splits)

lemma broadcast_to_same: "length xs = k \<Longrightarrow> broadcast_to k xs = Inr xs"
  by (simp add: broadcast_to_def)

lemma set_items_same:
  "length vals = length idx \<Longrightarrow> \<forall>i\<in>set idx. i < length u
   \<Longrightarrow> set_items u idx vals = Inr (scatter u idx vals)"
  by (simp add: set_items_def broadcast_to_same list_all_iff)

lemma set_items_Inr:
  "set_items u idx vals = Inr w \<Longrightarrow>
     \<exists>xs. broadcast_to (length idx) vals = Inr xs \<and> w = scatter u idx xs \<and> (\<forall>i\<in>set idx. i < length u)"
  by (auto simp: set_items_def list_all_iff split: sum.splits if_splits)

lemma set_items_length_only:
  "length u = length u' \<Longrightarrow> set_items u idx vals = Inl err \<Longrightarrow> set_items u' idx vals = Inl err"
  by (auto simp: set_items_def split: sum.splits if_splits)

lemma scatter_cover:
  assumes d: "distinct (ib @ gh)" and c: "set (ib @ gh) = {0..<n}"
    and lu: "length u = n" and lu': "length u' = n"
    and lv: "length v0 = length ib" and lx: "length x = length gh"
  shows "scatter (scatter u ib v0) gh x = scatter (scatter u' ib v0) gh x"
proof (rule nth_equalityI)
  show "length (scatter (scatter u ib v0) gh x) = length (scatter (scatter u' ib v0) gh x)"
    by (simp add: length_scatter lu lu')
next
  fix i
  assume "i < length (scatter (scatter u ib v0) gh x)"
  then have i: "i < n" by (simp add: length_scatter lu)
  then have mem: "i \<in> set ib \<or> i \<in> set gh" using c by auto
  show "scatter (scatter u ib v0) gh x ! i = scatter (scatter u' ib v0) gh x ! i"
  proof (cases "i \<in> set gh")
    case True
    then obtain k where k: "k < length gh" "gh ! k = i"
      by (auto simp: in_set_conv_nth)
    have "distinct gh" using d by simp
    then show ?thesis
      using scatter_nth [of gh x k "scatter u ib v0"] scatter_nth [of gh x k "scatter u' ib v0"]
        k lx i lu lu' by (simp add: length_scatter)
  next
    case False
    with mem have "i \<in> set ib" by simp
    then obtain k where k: "k < length ib" "ib ! k = i"
      by (auto simp: in_set_conv_nth)
    have "distinct ib" using d by simp
    then have "scatter u ib v0 ! i = scatter u' ib v0 ! i"
      using scatter_nth [of ib v0 k u] scatter_nth [of ib v0 k u'] k lv i lu lu' by simp
    with False show ?thesis by (simp add: scatter_other)
  qed
qed


lemma length_mat_vec: "length (mat_vec M x) = nrows M"
  by (simp add: mat_vec_def)

lemma wf_env_bounds:
  assumes "wf_env e"
  shows "\<forall>i\<in>set (interior e @ boundary e). i < length (nodes e)"
    and "\<forall>i\<in>set (ghost e). i < length (nodes e)"
proof -
  have "set (interior e @ boundary e @ ghost e) = {0..<length (nodes e)}"
    using assms by (simp add: wf_env_def)
  then show "\<forall>i\<in>set (interior e @ boundary e). i < length (nodes e)"
    and "\<forall>i\<in>set (ghost e). i < length (nodes e)" by auto
qed

lemma get_cols_ghost: "wf_env e \<Longrightarrow> get_cols (dD e) (ghost e) = Inr (ghost_matrix e)"
  using wf_env_bounds(2) [of e]
  by (simp add: get_cols_def ghost_matrix_def list_all_iff wf_env_def)

lemma get_cols_known:
  "wf_env e \<Longrightarrow> get_cols (dD e) (interior e @ boundary e) = Inr (known_matrix e)"
  using wf_env_bounds(1) [of e]
  by (simp add: get_cols_def known_matrix_def list_all_iff wf_env_def)

lemma np_sub_same: "length xs = length ys \<Longrightarrow> np_sub xs ys = Inr (map2 (-) xs ys)"
  by (simp add: np_sub_def)

lemma ghost_fill_wf:
  assumes wf: "wf_env e" and lv: "length v0 = length (interior e @ boundary e)"
  shows "ghost_fill e spsolve junk v0 =
     (case spsolve (ghost_matrix e) (ghost_rhs e v0) of
        Inl err \<Rightarrow> Inl err
      | Inr x \<Rightarrow>
          set_items (scatter (np_empty junk (length (nodes e))) (interior e @ boundary e) v0)
            (ghost e) x)"
proof -
  have s1: "set_items (np_empty junk (length (nodes e))) (interior e @ boundary e) v0
      = Inr (scatter (np_empty junk (length (nodes e))) (interior e @ boundary e) v0)"
    using wf_env_bounds(1) [OF wf] lv
    by (intro set_items_same) (simp_all add: np_empty_def)
  have d: "dot (known_matrix e) v0 = Inr (mat_vec (known_matrix e) v0)"
    using lv by (simp add: dot_def known_matrix_def take_cols_def)
  have r: "np_sub (u_bnd e) (mat_vec (known_matrix e) v0) = Inr (ghost_rhs e v0)"
    using wf
    by (simp add: np_sub_same ghost_rhs_def length_mat_vec known_matrix_def take_cols_def
        wf_env_def)
  show ?thesis
    unfolding ghost_fill_def
    by (simp only: s1 get_cols_ghost [OF wf] get_cols_known [OF wf] d r sum.case)
qed

lemma ghost_fill_wrong_length:
  assumes wf: "wf_env e" and lv: "length v0 \<noteq> length (interior e @ boundary e)"
  shows "\<exists>err. ghost_fill e spsolve junk v0 = Inl err"
proof -
  have d: "dot (known_matrix e) v0 = Inl ValueError"
    using lv by (simp add: dot_def known_matrix_def take_cols_def)
  show ?thesis
    unfolding ghost_fill_def
    by (simp add: get_cols_ghost [OF wf] get_cols_known [OF wf] d split: sum.splits)
qed

lemma ghost_fill_junk:
  assumes wf: "wf_env e"
  shows "ghost_fill e spsolve junk1 v0 = ghost_fill e spsolve junk2 v0"
proof (cases "length v0 = length (interior e @ boundary e)")
  case False
  have d: "dot (known_matrix e) v0 = Inl ValueError"
    using False by (simp add: dot_def known_matrix_def take_cols_def)
  have "ghost_fill e spsolve junk v0 =
      (case set_items (np_empty junk (length (nodes e))) (interior e @ boundary e) v0 of
        Inl err \<Rightarrow> Inl err | Inr u1 \<Rightarrow> Inl ValueError)" for junk
    unfolding ghost_fill_def
    by (simp add: get_cols_ghost [OF wf] get_cols_known [OF wf] d split: sum.splits)
  moreover have "(case set_items (np_empty junk1 (length (nodes e))) (interior e @ boundary e) v0 of
        Inl err \<Rightarrow> Inl err | Inr u1 \<Rightarrow> Inl ValueError) =
      (case set_items (np_empty junk2 (length (nodes e))) (interior e @ boundary e) v0 of
        Inl err \<Rightarrow> Inl err | Inr u1 \<Rightarrow> (Inl ValueError :: error + vec))"
    by (auto simp: set_items_def np_empty_def split: sum.splits)
  ultimately show ?thesis by simp
next
  case True
  let ?n = "length (nodes e)"
  let ?ib = "interior e @ boundary e"
  have bnd: "\<forall>i\<in>set (ghost e). i < ?n" using wf_env_bounds(2) [OF wf] .
  have "set_items (scatter (np_empty junk1 ?n) ?ib v0) (ghost e) x
      = set_items (scatter (np_empty junk2 ?n) ?ib v0) (ghost e) x" for x
  proof (cases "broadcast_to (length (ghost e)) x")
    case (Inl err)
    then show ?thesis by (simp add: set_items_def)
  next
    case (Inr xs)
    then have lx: "length xs = length (ghost e)" by (rule broadcast_to_length)
    have "scatter (scatter (np_empty junk1 ?n) ?ib v0) (ghost e) xs
        = scatter (scatter (np_empty junk2 ?n) ?ib v0) (ghost e) xs"
      using wf True lx
      by (intro scatter_cover [where n = ?n]) (simp_all add: wf_env_def np_empty_def)
    with Inr show ?thesis
      by (simp add: set_items_def length_scatter np_empty_def)
  qed
  then show ?thesis
    by (simp add: ghost_fill_wf [OF wf True] split: sum.splits)
qed

lemma f_time_junk_independent:
  "wf_env e \<Longrightarrow> f e spsolve junk1 t1 v = f e spsolve junk2 t2 v"
  unfolding f_def
  by (cases "reshape2 v") (auto simp: ghost_fill_junk [of e spsolve junk1 _ junk2])

lemma f_length:
  assumes wf: "wf_env e" and r: "f e spsolve junk t v = Inr r"
  shows "length r = length v"
proof -
  from r obtain v0 v1 u a where rs: "reshape2 v = Inr (v0, v1)"
    and gf: "ghost_fill e spsolve junk v0 = Inr u"
    and dt: "dot (D e) u = Inr a" and res: "r = hstack v1 a"
    by (auto simp: f_def split: sum.splits prod.splits)
  have lv: "length v0 = length v1" "v = v0 @ v1" using reshape2_Inr [OF rs] by simp_all
  have l0: "length v0 = length (interior e @ boundary e)"
    using ghost_fill_wrong_length [OF wf, of v0 spsolve junk] gf by auto
  have "a = mat_vec (D e) u" using dt by (auto simp: dot_def split: if_splits)
  then have "length a = length (interior e @ boundary e)"
    using wf by (simp add: length_mat_vec wf_env_def)
  with lv l0 res show ?thesis by (simp add: hstack_def)
qed

subsection \<open>Linear algebra on the operators\<close>

lemma length_lincomb: "length (lincomb a x b y) = min (length x) (length y)"
  by (simp add: lincomb_def)

lemma lincomb_nth:
  "j < length x \<Longrightarrow> j < length y \<Longrightarrow> lincomb a x b y ! j = a * x ! j + b * y ! j"
  by (simp add: lincomb_def)

lemma lincomb_append:
  "length x1 = length y1 \<Longrightarrow> lincomb a (x1 @ x2) b (y1 @ y2) = lincomb a x1 b y1 @ lincomb a x2 b y2"
  by (simp add: lincomb_def)

lemma mat_vec_nth:
  "i < nrows M \<Longrightarrow> mat_vec M x ! i = sum_list (map (\<lambda>j. coef M i j * x ! j) [0..<ncols M])"
  by (simp add: mat_vec_def)

lemma mat_vec_lincomb:
  assumes lx: "length x = ncols M" and ly: "length y = ncols M"
  shows "mat_vec M (lincomb a x b y) = lincomb a (mat_vec M x) b (mat_vec M y)"
proof (rule nth_equalityI)
  show "length (mat_vec M (lincomb a x b y)) = length (lincomb a (mat_vec M x) b (mat_vec M y))"
    by (simp add: length_mat_vec length_lincomb)
next
  fix i
  assume "i < length (mat_vec M (lincomb a x b y))"
  then have i: "i < nrows M" by (simp add: length_mat_vec)
  have "map (\<lambda>j. coef M i j * lincomb a x b y ! j) [0..<ncols M]
      = map (\<lambda>j. a * (coef M i j * x ! j) + b * (coef M i j * y ! j)) [0..<ncols M]"
    using lx ly by (intro map_cong refl) (simp add: lincomb_nth algebra_simps)
  then have "sum_list (map (\<lambda>j. coef M i j * lincomb a x b y ! j) [0..<ncols M])
      = sum_list (map (\<lambda>j. a * (coef M i j * x ! j) + b * (coef M i j * y ! j)) [0..<ncols M])"
    by (rule arg_cong)
  also have "\<dots> = a * sum_list (map (\<lambda>j. coef M i j * x ! j) [0..<ncols M])
        + b * sum_list (map (\<lambda>j. coef M i j * y ! j) [0..<ncols M])"
    by (simp only: sum_list_addf sum_list_const_mult)
  finally show "mat_vec M (lincomb a x b y) ! i = lincomb a (mat_vec M x) b (mat_vec M y) ! i"
    using i by (simp only: lincomb_nth length_mat_vec mat_vec_nth)
qed


lemma nonsingular_inj:
  assumes ns: "nonsingular A" and lx: "length x = ncols A" and ly: "length y = ncols A"
    and eq: "mat_vec A x = mat_vec A y"
  shows "x = y"
proof -
  let ?d = "lincomb 1 x (- 1) y"
  have ld: "length ?d = ncols A" using lx ly by (simp add: length_lincomb)
  have "mat_vec A ?d = lincomb 1 (mat_vec A x) (- 1) (mat_vec A y)"
    using lx ly by (rule mat_vec_lincomb)
  also have "\<dots> = replicate (nrows A) 0"
    by (rule nth_equalityI) (simp_all add: eq length_lincomb length_mat_vec lincomb_nth)
  finally have "mat_vec A ?d = replicate (nrows A) 0" .
  with ns ld have z: "?d = replicate (ncols A) 0"
    unfolding nonsingular_def by blast
  show ?thesis
  proof (rule nth_equalityI)
    show "length x = length y" using lx ly by simp
  next
    fix j
    assume "j < length x"
    then have j: "j < ncols A" using lx by simp
    then have "?d ! j = 0" by (simp only: z nth_replicate)
    moreover have "?d ! j = 1 * x ! j + (- 1) * y ! j"
      using j lx ly by (intro lincomb_nth) simp_all
    ultimately show "x ! j = y ! j" by simp
  qed
qed

lemma sum_list_upt_nth: "sum_list (map (\<lambda>k. g (xs ! k)) [0..<length xs]) = sum_list (map g xs)"
proof -
  have "map (\<lambda>k. g (xs ! k)) [0..<length xs] = map g (map ((!) xs) [0..<length xs])"
    by simp
  then show ?thesis by (simp only: map_nth)
qed

lemma mat_vec_take_cols_nth:
  assumes i: "i < nrows M"
  shows "mat_vec (take_cols M js) (map ((!) u) js) ! i
     = sum_list (map (\<lambda>j. coef M i j * u ! j) js)"
proof -
  have e: "map (\<lambda>k. coef M i (js ! k) * map ((!) u) js ! k) [0..<length js]
      = map (\<lambda>k. (\<lambda>j. coef M i j * u ! j) (js ! k)) [0..<length js]"
    by (intro map_cong refl) simp
  have "mat_vec (take_cols M js) (map ((!) u) js) ! i
      = sum_list (map (\<lambda>k. coef M i (js ! k) * map ((!) u) js ! k) [0..<length js])"
    using i by (simp add: mat_vec_nth take_cols_def)
  also have "\<dots> = sum_list (map (\<lambda>k. (\<lambda>j. coef M i j * u ! j) (js ! k)) [0..<length js])"
    by (simp only: e)
  also have "\<dots> = sum_list (map (\<lambda>j. coef M i j * u ! j) js)"
    by (rule sum_list_upt_nth [of "\<lambda>j. coef M i j * u ! j" js])
  finally show ?thesis .
qed

lemma mat_vec_split:
  assumes d: "distinct (ib @ gh)" and c: "set (ib @ gh) = {0..<ncols M}"
  shows "mat_vec M u =
     map2 (+) (mat_vec (take_cols M ib) (map ((!) u) ib))
              (mat_vec (take_cols M gh) (map ((!) u) gh))"
proof (rule nth_equalityI)
  show "length (mat_vec M u) =
      length (map2 (+) (mat_vec (take_cols M ib) (map ((!) u) ib))
              (mat_vec (take_cols M gh) (map ((!) u) gh)))"
    by (simp add: length_mat_vec take_cols_def)
next
  fix i
  assume "i < length (mat_vec M u)"
  then have i: "i < nrows M" by (simp add: length_mat_vec)
  let ?g = "\<lambda>j. coef M i j * u ! j"
  have "sum_list (map ?g [0..<ncols M]) = sum ?g {0..<ncols M}"
    by (simp add: sum_list_distinct_conv_sum_set)
  also have "\<dots> = sum_list (map ?g (ib @ gh))"
    using d c by (simp only: sum_list_distinct_conv_sum_set)
  also have "\<dots> = sum_list (map ?g ib) + sum_list (map ?g gh)"
    by simp
  finally have lhs: "mat_vec M u ! i = sum_list (map ?g ib) + sum_list (map ?g gh)"
    using i by (simp add: mat_vec_nth)
  show "mat_vec M u ! i =
      map2 (+) (mat_vec (take_cols M ib) (map ((!) u) ib))
               (mat_vec (take_cols M gh) (map ((!) u) gh)) ! i"
    using i lhs mat_vec_take_cols_nth [OF i, of ib u] mat_vec_take_cols_nth [OF i, of gh u]
    by (simp add: length_mat_vec take_cols_def)
qed

lemma parts_determine:
  assumes c: "set (ib @ gh) = {0..<n}" and lu: "length u = n" and lw: "length w = n"
    and ib: "map ((!) u) ib = map ((!) w) ib"
    and gh: "map ((!) u) gh = map ((!) w) gh"
  shows "u = w"
proof (rule nth_equalityI)
  show "length u = length w" using lu lw by simp
next
  fix i
  assume "i < length u"
  then have "i \<in> set (ib @ gh)"
    using c lu by simp
  then have "i \<in> set ib \<or> i \<in> set gh" by auto
  then show "u ! i = w ! i"
    using ib gh by auto
qed

lemma scatter_parts:
  assumes d: "distinct (ib @ gh)" and c: "set (ib @ gh) = {0..<n}"
    and lu: "length u0 = n" and lv: "length v0 = length ib" and lx: "length x = length gh"
  shows "map ((!) (scatter (scatter u0 ib v0) gh x)) ib = v0"
    and "map ((!) (scatter (scatter u0 ib v0) gh x)) gh = x"
proof -
  let ?u1 = "scatter u0 ib v0"
  have dib: "distinct ib" and dgh: "distinct gh" and dj: "set ib \<inter> set gh = {}"
    using d by auto
  have bib: "\<forall>i\<in>set ib. i < n" and bgh: "\<forall>i\<in>set gh. i < n"
    using c by auto
  show "map ((!) (scatter ?u1 gh x)) ib = v0"
  proof (rule nth_equalityI)
    show "length (map ((!) (scatter ?u1 gh x)) ib) = length v0" using lv by simp
  next
    fix k
    assume "k < length (map ((!) (scatter ?u1 gh x)) ib)"
    then have k: "k < length ib" by simp
    then have mem: "ib ! k \<in> set ib" by (rule nth_mem)
    then have "ib ! k \<notin> set gh" using dj by auto
    then have "scatter ?u1 gh x ! (ib ! k) = ?u1 ! (ib ! k)"
      by (rule scatter_other)
    also have "\<dots> = v0 ! k"
      using dib lv k bib mem lu by (intro scatter_nth) simp_all
    finally show "map ((!) (scatter ?u1 gh x)) ib ! k = v0 ! k"
      using k by simp
  qed
  show "map ((!) (scatter ?u1 gh x)) gh = x"
  proof (rule nth_equalityI)
    show "length (map ((!) (scatter ?u1 gh x)) gh) = length x" using lx by simp
  next
    fix k
    assume "k < length (map ((!) (scatter ?u1 gh x)) gh)"
    then have k: "k < length gh" by simp
    then have mem: "gh ! k \<in> set gh" by (rule nth_mem)
    have "scatter ?u1 gh x ! (gh ! k) = x ! k"
      using dgh lx k bgh mem lu by (intro scatter_nth) (simp_all add: length_scatter)
    then show "map ((!) (scatter ?u1 gh x)) gh ! k = x ! k"
      using k by simp
  qed
qed

subsection \<open>The ghost system and the result of the evaluator\<close>

lemma length_ghost_rhs:
  "wf_env e \<Longrightarrow> length (ghost_rhs e v0) = length (boundary e)"
  by (simp add: ghost_rhs_def length_mat_vec known_matrix_def take_cols_def wf_env_def)

lemma ghost_matrix_shape:
  "nrows (ghost_matrix e) = nrows (dD e)" "ncols (ghost_matrix e) = length (ghost e)"
  by (simp_all add: ghost_matrix_def take_cols_def)

lemma ghost_fill_valid:
  assumes wf: "wf_env e" and se: "solves_exactly spsolve (ghost_matrix e)"
    and lv: "length v0 = length (interior e @ boundary e)"
  shows "\<exists>u x. ghost_fill e spsolve junk v0 = Inr u \<and> length u = length (nodes e) \<and>
    map ((!) u) (interior e @ boundary e) = v0 \<and> map ((!) u) (ghost e) = x \<and>
    spsolve (ghost_matrix e) (ghost_rhs e v0) = Inr x \<and> length x = length (ghost e) \<and>
    mat_vec (ghost_matrix e) x = ghost_rhs e v0"
proof -
  let ?ib = "interior e @ boundary e"
  let ?n = "length (nodes e)"
  have "length (ghost_rhs e v0) = nrows (ghost_matrix e)"
    using wf by (simp add: length_ghost_rhs ghost_matrix_shape wf_env_def)
  with se obtain x where x: "spsolve (ghost_matrix e) (ghost_rhs e v0) = Inr x"
    "length x = ncols (ghost_matrix e)" "mat_vec (ghost_matrix e) x = ghost_rhs e v0"
    unfolding solves_exactly_def by blast
  have lx: "length x = length (ghost e)" using x(2) by (simp add: ghost_matrix_shape)
  let ?u1 = "scatter (np_empty junk ?n) ?ib v0"
  let ?u = "scatter ?u1 (ghost e) x"
  have d: "distinct (?ib @ ghost e)" and c: "set (?ib @ ghost e) = {0..<?n}"
    using wf by (simp_all add: wf_env_def)
  have l0: "length (np_empty junk ?n) = ?n" by (simp add: np_empty_def)
  have "set_items ?u1 (ghost e) x = Inr ?u"
    using wf_env_bounds(2) [OF wf] lx l0 by (intro set_items_same) (simp_all add: length_scatter)
  then have gf: "ghost_fill e spsolve junk v0 = Inr ?u"
    by (simp add: ghost_fill_wf [OF wf lv] x(1))
  have lu: "length ?u = ?n" using l0 by (simp add: length_scatter)
  have p1: "map ((!) ?u) ?ib = v0" using d c l0 lv lx by (rule scatter_parts(1))
  have p2: "map ((!) ?u) (ghost e) = x" using d c l0 lv lx by (rule scatter_parts(2))
  from gf lu p1 p2 x(1) lx x(3) show ?thesis by blast
qed

lemma f_valid:
  assumes wf: "wf_env e" and se: "solves_exactly spsolve (ghost_matrix e)"
    and lv: "length v = 2 * length (interior e @ boundary e)"
  shows "\<exists>u x. f e spsolve junk t v
        = Inr (hstack (drop (length v div 2) v) (mat_vec (D e) u)) \<and>
    length u = length (nodes e) \<and>
    map ((!) u) (interior e @ boundary e) = take (length v div 2) v \<and>
    map ((!) u) (ghost e) = x \<and>
    spsolve (ghost_matrix e) (ghost_rhs e (take (length v div 2) v)) = Inr x \<and>
    length x = length (ghost e) \<and>
    mat_vec (ghost_matrix e) x = ghost_rhs e (take (length v div 2) v)"
proof -
  let ?m = "length v div 2"
  have m: "?m = length (interior e @ boundary e)" using lv by simp
  have rs: "reshape2 v = Inr (take ?m v, drop ?m v)"
    using lv by (simp add: reshape2_def)
  have l0: "length (take ?m v) = length (interior e @ boundary e)" using lv by simp
  from ghost_fill_valid [OF wf se l0, of junk] obtain u x where
    u: "ghost_fill e spsolve junk (take ?m v) = Inr u" "length u = length (nodes e)"
      "map ((!) u) (interior e @ boundary e) = take ?m v" "map ((!) u) (ghost e) = x"
      "spsolve (ghost_matrix e) (ghost_rhs e (take ?m v)) = Inr x" "length x = length (ghost e)"
      "mat_vec (ghost_matrix e) x = ghost_rhs e (take ?m v)"
    by blast
  have "dot (D e) u = Inr (mat_vec (D e) u)"
    using wf u(2) by (simp add: dot_def wf_env_def)
  then have "f e spsolve junk t v = Inr (hstack (drop ?m v) (mat_vec (D e) u))"
    by (simp add: f_def rs u(1))
  with u show ?thesis by blast
qed

lemma map2_add_sub_cancel:
  "length (a :: real list) = length b \<Longrightarrow> map2 (+) b (map2 (-) a b) = a"
  by (rule nth_equalityI) simp_all

lemma residual_zero:
  assumes wf: "wf_env e" and lu: "length u = length (nodes e)"
    and eq: "mat_vec (ghost_matrix e) (map ((!) u) (ghost e))
        = ghost_rhs e (map ((!) u) (interior e @ boundary e))"
  shows "mat_vec (dD e) u = u_bnd e"
proof -
  let ?ib = "interior e @ boundary e"
  have d: "distinct (?ib @ ghost e)" and c: "set (?ib @ ghost e) = {0..<ncols (dD e)}"
    using wf by (simp_all add: wf_env_def)
  have "mat_vec (dD e) u = map2 (+) (mat_vec (known_matrix e) (map ((!) u) ?ib))
      (mat_vec (ghost_matrix e) (map ((!) u) (ghost e)))"
    unfolding known_matrix_def ghost_matrix_def using d c by (rule mat_vec_split)
  also have "\<dots> = map2 (+) (mat_vec (known_matrix e) (map ((!) u) ?ib))
      (map2 (-) (u_bnd e) (mat_vec (known_matrix e) (map ((!) u) ?ib)))"
    by (simp only: eq ghost_rhs_def)
  also have "\<dots> = u_bnd e"
    using wf by (intro map2_add_sub_cancel)
      (simp add: length_mat_vec known_matrix_def take_cols_def wf_env_def)
  finally show ?thesis .
qed

lemma map2_sub_unique:
  assumes la: "length (a :: real list) = length b" and lc: "length c = length b"
    and eq: "map2 (+) b c = a"
  shows "c = map2 (-) a b"
proof -
  have "c = map2 (-) (map2 (+) b c) b"
    using lc by (rule_tac nth_equalityI) simp_all
  then show ?thesis by (simp only: eq)
qed

lemma ghost_fill_recovers:
  assumes wf: "wf_env e" and se: "solves_exactly spsolve (ghost_matrix e)"
    and ns: "nonsingular (ghost_matrix e)"
    and lu: "length u_full = length (nodes e)"
    and bc: "mat_vec (dD e) u_full = u_bnd e"
  shows "ghost_fill e spsolve junk (map ((!) u_full) (interior e @ boundary e)) = Inr u_full"
proof -
  let ?ib = "interior e @ boundary e"
  let ?v0 = "map ((!) u_full) ?ib"
  let ?g = "map ((!) u_full) (ghost e)"
  have lv: "length ?v0 = length ?ib" by simp
  from ghost_fill_valid [OF wf se lv, of junk] obtain u x where
    u: "ghost_fill e spsolve junk ?v0 = Inr u" "length u = length (nodes e)"
      "map ((!) u) ?ib = ?v0" "map ((!) u) (ghost e) = x"
      "length x = length (ghost e)" "mat_vec (ghost_matrix e) x = ghost_rhs e ?v0"
    by blast
  have d: "distinct (?ib @ ghost e)" and c: "set (?ib @ ghost e) = {0..<ncols (dD e)}"
    and c': "set (?ib @ ghost e) = {0..<length (nodes e)}"
    using wf by (simp_all add: wf_env_def)
  have "mat_vec (dD e) u_full = map2 (+) (mat_vec (known_matrix e) ?v0)
      (mat_vec (ghost_matrix e) ?g)"
    unfolding known_matrix_def ghost_matrix_def using d c by (rule mat_vec_split)
  then have "map2 (+) (mat_vec (known_matrix e) ?v0) (mat_vec (ghost_matrix e) ?g) = u_bnd e"
    using bc by simp
  then have "mat_vec (ghost_matrix e) ?g = map2 (-) (u_bnd e) (mat_vec (known_matrix e) ?v0)"
    using wf by (elim map2_sub_unique [rotated 2])
      (simp_all add: length_mat_vec known_matrix_def ghost_matrix_def take_cols_def wf_env_def)
  then have "mat_vec (ghost_matrix e) x = mat_vec (ghost_matrix e) ?g"
    using u(6) by (simp add: ghost_rhs_def)
  then have "x = ?g"
    using ns u(5) by (elim nonsingular_inj [rotated 3]) (simp_all add: ghost_matrix_shape)
  then have "map ((!) u) (ghost e) = ?g" using u(4) by simp
  then have "u = u_full"
    using c' u(2) lu u(3) by (rule parts_determine [rotated 4])
  with u(1) show ?thesis by simp
qed

lemma mat_vec_zero: "mat_vec M (replicate (ncols M) 0) = replicate (nrows M) 0"
proof (rule nth_equalityI)
  show "length (mat_vec M (replicate (ncols M) 0)) = length (replicate (nrows M) (0::real))"
    by (simp add: length_mat_vec)
next
  fix i
  assume "i < length (mat_vec M (replicate (ncols M) 0))"
  then have i: "i < nrows M" by (simp add: length_mat_vec)
  have e: "map (\<lambda>j. coef M i j * replicate (ncols M) 0 ! j) [0..<ncols M]
      = map (\<lambda>j. 0) [0..<ncols M]"
    by (intro map_cong refl) simp
  have "sum_list (map (\<lambda>j. coef M i j * replicate (ncols M) 0 ! j) [0..<ncols M]) = 0"
    by (simp only: e sum_list_0)
  then show "mat_vec M (replicate (ncols M) 0) ! i = replicate (nrows M) 0 ! i"
    using i by (simp add: mat_vec_nth)
qed

lemma map_nth_replicate:
  "\<forall>i\<in>set js. i < n \<Longrightarrow> map ((!) (replicate n x)) js = replicate (length js) x"
  by (induction js) simp_all

lemma map2_sub_zero: "map2 (-) (replicate n (0::real)) (replicate n 0) = replicate n 0"
  by (rule nth_equalityI) simp_all

lemma f_zero:
  assumes wf: "wf_env e" and se: "solves_exactly spsolve (ghost_matrix e)"
    and ns: "nonsingular (ghost_matrix e)"
    and ub: "u_bnd e = replicate (length (boundary e)) 0"
  shows "f e spsolve junk t (replicate (2 * length (interior e @ boundary e)) 0)
     = Inr (replicate (2 * length (interior e @ boundary e)) 0)"
proof -
  let ?ib = "interior e @ boundary e"
  let ?m = "length ?ib"
  let ?n = "length (nodes e)"
  let ?v = "replicate (2 * ?m) (0::real)"
  have lv: "length ?v = 2 * ?m" by simp
  have half: "length ?v div 2 = ?m" by simp
  from f_valid [OF wf se lv, of junk t] obtain u x where
    u: "f e spsolve junk t ?v = Inr (hstack (drop ?m ?v) (mat_vec (D e) u))"
      "length u = ?n" "map ((!) u) ?ib = take ?m ?v" "map ((!) u) (ghost e) = x"
      "length x = length (ghost e)" "mat_vec (ghost_matrix e) x = ghost_rhs e (take ?m ?v)"
    unfolding half by blast
  have tk: "take ?m ?v = replicate ?m 0" by simp
  have kz: "mat_vec (known_matrix e) (replicate ?m 0) = replicate (length (boundary e)) 0"
    using mat_vec_zero [of "known_matrix e"] wf
    by (simp add: known_matrix_def take_cols_def wf_env_def)
  have rhs: "ghost_rhs e (take ?m ?v) = replicate (length (boundary e)) 0"
    by (simp only: tk ghost_rhs_def ub kz map2_sub_zero)
  have "mat_vec (ghost_matrix e) x = mat_vec (ghost_matrix e) (replicate (length (ghost e)) 0)"
    using u(6) rhs mat_vec_zero [of "ghost_matrix e"] wf
    by (simp add: ghost_matrix_shape wf_env_def)
  then have x: "x = replicate (length (ghost e)) 0"
    using ns u(5) by (elim nonsingular_inj [rotated 3]) (simp_all add: ghost_matrix_shape)
  have c: "set (?ib @ ghost e) = {0..<?n}" using wf by (simp add: wf_env_def)
  have "u = replicate ?n 0"
  proof (rule parts_determine [OF c u(2)])
    show "length (replicate ?n (0::real)) = ?n" by simp
    show "map ((!) u) ?ib = map ((!) (replicate ?n 0)) ?ib"
      using wf_env_bounds(1) [OF wf] u(3) tk by (simp only: map_nth_replicate)
    show "map ((!) u) (ghost e) = map ((!) (replicate ?n 0)) (ghost e)"
      using wf_env_bounds(2) [OF wf] u(4) x by (simp only: map_nth_replicate)
  qed
  then have "mat_vec (D e) u = replicate ?m 0"
    using mat_vec_zero [of "D e"] wf by (simp add: wf_env_def)
  then have "hstack (drop ?m ?v) (mat_vec (D e) u) = ?v"
    by (simp add: hstack_def flip: replicate_add)
  with u(1) show ?thesis by simp
qed

subsection \<open>The three-node instance satisfies the hypotheses\<close>

lemma env3_wf: "wf_env env3"
  by (auto simp: wf_env_def env3_def)

lemma env3_ghost_matrix:
  "nrows (ghost_matrix env3) = 1" "ncols (ghost_matrix env3) = 1"
  "coef (ghost_matrix env3) 0 0 = 2"
  by (simp_all add: ghost_matrix_def take_cols_def env3_def)

lemma mat_vec_1x1: "nrows A = 1 \<Longrightarrow> ncols A = 1 \<Longrightarrow> mat_vec A x = [coef A 0 0 * x ! 0]"
  by (simp add: mat_vec_def)

lemma env3_solves: "solves_exactly spsolve_1x1 (ghost_matrix env3)"
  unfolding solves_exactly_def
proof (intro allI impI)
  fix b :: vec
  assume "length b = nrows (ghost_matrix env3)"
  then have "length b = 1" by (simp add: env3_ghost_matrix)
  then obtain b0 where b: "b = [b0]" by (cases b) auto
  have "spsolve_1x1 (ghost_matrix env3) b = Inr [b0 / 2]"
    by (simp add: spsolve_1x1_def env3_ghost_matrix b)
  moreover have "mat_vec (ghost_matrix env3) [b0 / 2] = b"
    by (simp add: mat_vec_1x1 env3_ghost_matrix b)
  ultimately show "\<exists>x. spsolve_1x1 (ghost_matrix env3) b = Inr x \<and>
      length x = ncols (ghost_matrix env3) \<and> mat_vec (ghost_matrix env3) x = b"
    by (simp add: env3_ghost_matrix)
qed

lemma env3_nonsingular: "nonsingular (ghost_matrix env3)"
  unfolding nonsingular_def
proof (intro conjI allI impI)
  show "nrows (ghost_matrix env3) = ncols (ghost_matrix env3)"
    by (simp add: env3_ghost_matrix)
next
  fix x :: vec
  assume "length x = ncols (ghost_matrix env3)"
    and z: "mat_vec (ghost_matrix env3) x = replicate (nrows (ghost_matrix env3)) 0"
  then have "length x = 1" by (simp add: env3_ghost_matrix)
  then obtain x0 where x: "x = [x0]" by (cases x) auto
  from z have "x0 = 0" by (simp add: mat_vec_1x1 env3_ghost_matrix x)
  then show "x = replicate (ncols (ghost_matrix env3)) 0"
    by (simp add: env3_ghost_matrix x)
qed

lemma take_lincomb: "take m (lincomb a x b y) = lincomb a (take m x) b (take m y)"
  by (simp add: lincomb_def take_map take_zip)

lemma drop_lincomb: "drop m (lincomb a x b y) = lincomb a (drop m x) b (drop m y)"
  by (simp add: lincomb_def drop_map drop_zip)

lemma map_nth_lincomb:
  "\<forall>i\<in>set js. i < length x \<and> i < length y \<Longrightarrow>
   map ((!) (lincomb a x b y)) js = lincomb a (map ((!) x) js) b (map ((!) y) js)"
proof (induction js)
  case Nil
  then show ?case by (simp add: lincomb_def)
next
  case (Cons j js)
  then have "lincomb a x b y ! j = a * x ! j + b * y ! j"
    by (simp add: lincomb_nth)
  with Cons show ?case by (simp add: lincomb_def)
qed

lemma ghost_rhs_lincomb:
  assumes wf: "wf_env e" and ub: "u_bnd e = replicate (length (boundary e)) 0"
    and lp: "length p = length (interior e @ boundary e)"
    and lq: "length q = length (interior e @ boundary e)"
  shows "ghost_rhs e (lincomb a p b q) = lincomb a (ghost_rhs e p) b (ghost_rhs e q)"
proof -
  let ?B = "known_matrix e"
  have nc: "ncols ?B = length (interior e @ boundary e)"
    and nr: "nrows ?B = length (boundary e)"
    using wf by (simp_all add: known_matrix_def take_cols_def wf_env_def)
  have lin: "mat_vec ?B (lincomb a p b q) = lincomb a (mat_vec ?B p) b (mat_vec ?B q)"
    using lp lq nc by (intro mat_vec_lincomb) simp_all
  show ?thesis
    unfolding ghost_rhs_def ub lin
    by (rule nth_equalityI)
      (simp_all add: length_lincomb length_mat_vec nr lincomb_nth algebra_simps)
qed

lemma f_linear_aux:
  assumes wf: "wf_env e" and se: "solves_exactly spsolve (ghost_matrix e)"
    and ns: "nonsingular (ghost_matrix e)"
    and ub: "u_bnd e = replicate (length (boundary e)) 0"
    and l1: "length v1 = 2 * length (interior e @ boundary e)"
    and l2: "length v2 = 2 * length (interior e @ boundary e)"
  shows "\<exists>r1 r2. f e spsolve junk t v1 = Inr r1 \<and> f e spsolve junk t v2 = Inr r2 \<and>
    f e spsolve junk t (lincomb a v1 b v2) = Inr (lincomb a r1 b r2)"
proof -
  let ?ib = "interior e @ boundary e"
  let ?m = "length ?ib"
  let ?n = "length (nodes e)"
  let ?v3 = "lincomb a v1 b v2"
  have l3: "length ?v3 = 2 * ?m" using l1 l2 by (simp add: length_lincomb)
  have h1: "length v1 div 2 = ?m" and h2: "length v2 div 2 = ?m" and h3: "length ?v3 div 2 = ?m"
    using l1 l2 l3 by simp_all
  from f_valid [OF wf se l1, of junk t] obtain u1 x1 where
    u1: "f e spsolve junk t v1 = Inr (hstack (drop ?m v1) (mat_vec (D e) u1))"
      "length u1 = ?n" "map ((!) u1) ?ib = take ?m v1" "map ((!) u1) (ghost e) = x1"
      "length x1 = length (ghost e)" "mat_vec (ghost_matrix e) x1 = ghost_rhs e (take ?m v1)"
    unfolding h1 by blast
  from f_valid [OF wf se l2, of junk t] obtain u2 x2 where
    u2: "f e spsolve junk t v2 = Inr (hstack (drop ?m v2) (mat_vec (D e) u2))"
      "length u2 = ?n" "map ((!) u2) ?ib = take ?m v2" "map ((!) u2) (ghost e) = x2"
      "length x2 = length (ghost e)" "mat_vec (ghost_matrix e) x2 = ghost_rhs e (take ?m v2)"
    unfolding h2 by blast
  from f_valid [OF wf se l3, of junk t] obtain u3 x3 where
    u3: "f e spsolve junk t ?v3 = Inr (hstack (drop ?m ?v3) (mat_vec (D e) u3))"
      "length u3 = ?n" "map ((!) u3) ?ib = take ?m ?v3" "map ((!) u3) (ghost e) = x3"
      "length x3 = length (ghost e)" "mat_vec (ghost_matrix e) x3 = ghost_rhs e (take ?m ?v3)"
    unfolding h3 by blast
  let ?w = "lincomb a u1 b u2"
  have lw: "length ?w = ?n" using u1(2) u2(2) by (simp add: length_lincomb)
  have c: "set (?ib @ ghost e) = {0..<?n}" using wf by (simp add: wf_env_def)
  have bib: "\<forall>i\<in>set ?ib. i < length u1 \<and> i < length u2"
    using wf_env_bounds(1) [OF wf] u1(2) u2(2) by simp
  have bgh: "\<forall>i\<in>set (ghost e). i < length u1 \<and> i < length u2"
    using wf_env_bounds(2) [OF wf] u1(2) u2(2) by simp
  have wib: "map ((!) ?w) ?ib = lincomb a (take ?m v1) b (take ?m v2)"
    using map_nth_lincomb [OF bib, of a b] by (simp only: u1(3) u2(3))
  have wgh: "map ((!) ?w) (ghost e) = lincomb a x1 b x2"
    using map_nth_lincomb [OF bgh, of a b] by (simp only: u1(4) u2(4))
  have "mat_vec (ghost_matrix e) x3
      = lincomb a (ghost_rhs e (take ?m v1)) b (ghost_rhs e (take ?m v2))"
    using l1 l2 by (simp only: u3(6) take_lincomb) (rule ghost_rhs_lincomb [OF wf ub], simp_all)
  also have "\<dots> = mat_vec (ghost_matrix e) (lincomb a x1 b x2)"
    using u1(5) u2(5)
    by (simp only: u1(6) [symmetric] u2(6) [symmetric])
      (rule mat_vec_lincomb [symmetric], simp_all add: ghost_matrix_shape)
  finally have "x3 = lincomb a x1 b x2"
    using ns u3(5) u1(5) u2(5)
    by (elim nonsingular_inj [rotated 3]) (simp_all add: ghost_matrix_shape length_lincomb)
  then have gh: "map ((!) u3) (ghost e) = map ((!) ?w) (ghost e)"
    by (simp only: u3(4) wgh)
  have ib: "map ((!) u3) ?ib = map ((!) ?w) ?ib"
    by (simp only: u3(3) wib take_lincomb)
  have "u3 = ?w"
    using c u3(2) lw ib gh by (rule parts_determine)
  then have "mat_vec (D e) u3 = lincomb a (mat_vec (D e) u1) b (mat_vec (D e) u2)"
    using wf u1(2) u2(2) by (simp add: mat_vec_lincomb wf_env_def)
  then have "hstack (drop ?m ?v3) (mat_vec (D e) u3)
      = lincomb a (hstack (drop ?m v1) (mat_vec (D e) u1)) b (hstack (drop ?m v2) (mat_vec (D e) u2))"
    using l1 l2 by (simp add: hstack_def drop_lincomb lincomb_append)
  with u1(1) u2(1) u3(1) show ?thesis by simp
qed

subsection \<open>The set-up part of the script\<close>

lemma set_nonzero: "set (nonzero flags) = {i. i < length flags \<and> flags ! i}"
  by (auto simp: nonzero_def)

lemma distinct_nonzero: "distinct (nonzero flags)"
  by (simp add: nonzero_def)

lemma length_nonzero_split:
  "length (nonzero (map P xs)) + length (nonzero (map (\<lambda>x. \<not> P x) xs)) = length xs"
proof -
  have "length (filter (\<lambda>i. P (xs ! i)) [0..<length xs])
      + length (filter (\<lambda>i. \<not> P (xs ! i)) [0..<length xs]) = length [0..<length xs]"
    by (rule sum_length_filter_compl)
  moreover have "filter (\<lambda>i. map P xs ! i) [0..<length xs]
      = filter (\<lambda>i. P (xs ! i)) [0..<length xs]"
    by (rule filter_cong) simp_all
  moreover have "filter (\<lambda>i. map (\<lambda>x. \<not> P x) xs ! i) [0..<length xs]
      = filter (\<lambda>i. \<not> P (xs ! i)) [0..<length xs]"
    by (rule filter_cong) simp_all
  ultimately show ?thesis by (simp add: nonzero_def)
qed

lemma nonzero_cong:
  "length xs = length ys \<Longrightarrow> (\<And>i. i < length xs \<Longrightarrow> xs ! i = ys ! i) \<Longrightarrow> nonzero xs = nonzero ys"
  unfolding nonzero_def by (auto intro!: filter_cong)

lemma interior_boundary_count:
  assumes "list_all (\<lambda>s. - 1 \<le> s) (smpid :: int list)"
  shows "length (nonzero (map (\<lambda>s. s = - 1) smpid)) + length (nonzero (map (\<lambda>s. 0 \<le> s) smpid))
    = length smpid"
proof -
  have "nonzero (map (\<lambda>s. 0 \<le> s) smpid) = nonzero (map (\<lambda>s. \<not> s = - 1) smpid)"
  proof (rule nonzero_cong)
    show "length (map (\<lambda>s. 0 \<le> s) smpid) = length (map (\<lambda>s. \<not> s = - 1) smpid)" by simp
  next
    fix i
    assume "i < length (map (\<lambda>s. 0 \<le> s) smpid)"
    then have i: "i < length smpid" by simp
    then have "- 1 \<le> smpid ! i" using assms by (simp add: list_all_length)
    then show "map (\<lambda>s. 0 \<le> s) smpid ! i = map (\<lambda>s. \<not> s = - 1) smpid ! i"
      using i by auto
  qed
  then show ?thesis
    using length_nonzero_split [of "\<lambda>s. s = - 1" smpid] by simp
qed

lemma get_rows_Inr: "get_rows a idx = Inr r \<Longrightarrow> r = map ((!) a) idx \<and> (\<forall>i\<in>set idx. i < length a)"
  by (auto simp: get_rows_def list_all_iff split: if_splits)

lemma get_rows_int_length: "get_rows_int a idx = Inr r \<Longrightarrow> length r = length idx"
  by (auto simp: get_rows_int_def split: if_splits)

lemma boundary_normals_length:
  "boundary_normals snormals smpid bnd = Inr normals \<Longrightarrow> length normals = length bnd"
  by (auto simp: boundary_normals_def get_rows_def dest: get_rows_int_length
      split: sum.splits if_splits)

lemma length_ghost_points:
  "length bpts = length normals \<Longrightarrow> length (ghost_points bpts dx normals) = length normals"
  by (simp add: ghost_points_def)

lemma script_setup_Inr:
  assumes "script_setup N nodes0 smpid snormals weight_matrix = Inr (e, v)"
  shows "\<exists>normals dx.
    boundary_normals snormals smpid (boundary e) = Inr normals \<and>
    min_spacing nodes0 = Inr dx \<and>
    interior e = nonzero (map (\<lambda>s. s = - 1) smpid) \<and>
    boundary e = nonzero (map (\<lambda>s. 0 \<le> s) smpid) \<and>
    ghost e = [N..<N + length (boundary e)] \<and>
    (\<forall>i\<in>set (boundary e). i < length nodes0) \<and>
    nodes e = nodes0 @ ghost_points (map ((!) nodes0) (boundary e)) dx normals \<and>
    (\<forall>i\<in>set (interior e @ boundary e). i < length (nodes e)) \<and>
    weight_matrix (map ((!) (nodes e)) (interior e @ boundary e)) (nodes e)
      [(2, 0), (0, 2)] None 30 = Inr (D e) \<and>
    weight_matrix (map ((!) (nodes e)) (boundary e)) (nodes e) [(1, 0), (0, 1)]
      (Some [map fst normals, map snd normals]) 30 = Inr (dD e) \<and>
    u_bnd e = replicate (length (boundary e)) 0 \<and>
    v = hstack (map u_init_at (map ((!) (nodes e)) (interior e @ boundary e))) (replicate N 0)"
  using assms unfolding script_setup_def Let_def
  by (auto split: sum.splits dest!: get_rows_Inr)

lemma script_setup_nodes_length:
  assumes s: "script_setup N nodes0 smpid snormals weight_matrix = Inr (e, v)"
  shows "length (nodes e) = length nodes0 + length (boundary e)"
proof -
  from script_setup_Inr [OF s] obtain normals dx where
    n: "boundary_normals snormals smpid (boundary e) = Inr normals"
    and nd: "nodes e = nodes0 @ ghost_points (map ((!) nodes0) (boundary e)) dx normals"
    by blast
  have "length normals = length (boundary e)" using n by (rule boundary_normals_length)
  then show ?thesis by (simp add: nd length_ghost_points)
qed

lemma script_setup_wf:
  assumes s: "script_setup N nodes0 smpid snormals weight_matrix = Inr (e, v)"
    and sc: "shape_contract weight_matrix"
    and mc: "menodes_contract N nodes0 smpid"
  shows "wf_env e" and "length v = 2 * (length (interior e) + length (boundary e))"
    and "length (interior e) + length (boundary e) = N"
proof -
  from script_setup_Inr [OF s] obtain normals dx where
    i: "interior e = nonzero (map (\<lambda>s. s = - 1) smpid)"
    and b: "boundary e = nonzero (map (\<lambda>s. 0 \<le> s) smpid)"
    and g: "ghost e = [N..<N + length (boundary e)]"
    and wD: "weight_matrix (map ((!) (nodes e)) (interior e @ boundary e)) (nodes e)
      [(2, 0), (0, 2)] None 30 = Inr (D e)"
    and wdD: "weight_matrix (map ((!) (nodes e)) (boundary e)) (nodes e) [(1, 0), (0, 1)]
      (Some [map fst normals, map snd normals]) 30 = Inr (dD e)"
    and ub: "u_bnd e = replicate (length (boundary e)) 0"
    and v: "v = hstack (map u_init_at (map ((!) (nodes e)) (interior e @ boundary e)))
      (replicate N 0)"
    by blast
  have ln0: "length nodes0 = N" and ls: "length smpid = N"
    and ge: "list_all (\<lambda>s. - 1 \<le> s) smpid"
    using mc by (simp_all add: menodes_contract_def)
  have ln: "length (nodes e) = N + length (boundary e)"
    using script_setup_nodes_length [OF s] ln0 by simp
  have si: "set (interior e) = {k. k < N \<and> smpid ! k = - 1}"
    unfolding i set_nonzero using ls by auto
  have sb: "set (boundary e) = {k. k < N \<and> 0 \<le> smpid ! k}"
    unfolding b set_nonzero using ls by auto
  have all: "\<forall>k<N. - 1 \<le> smpid ! k" using ge ls by (simp add: list_all_length)
  have cnt: "length (interior e) + length (boundary e) = N"
    unfolding i b using interior_boundary_count [OF ge] ls by simp
  have sg: "set (ghost e) = {N..<N + length (boundary e)}" by (simp add: g)
  have di: "distinct (interior e)" by (simp only: i distinct_nonzero)
  have db: "distinct (boundary e)" by (simp only: b distinct_nonzero)
  have dg: "distinct (ghost e)" by (simp add: g)
  have ib: "set (interior e) \<inter> set (boundary e) = {}" unfolding si sb by auto
  have ig: "set (interior e) \<inter> set (ghost e) = {}" unfolding si sg by auto
  have bg: "set (boundary e) \<inter> set (ghost e) = {}" unfolding sb sg by auto
  have d: "distinct (interior e @ boundary e @ ghost e)"
    using di db dg ib ig bg by (simp add: Int_Un_distrib)
  have "set (interior e) \<union> set (boundary e) = {0..<N}"
  proof -
    have "k < N \<Longrightarrow> smpid ! k = - 1 \<or> 0 \<le> smpid ! k" for k
      using all by force
    then show ?thesis unfolding si sb by fastforce
  qed
  then have "set (interior e) \<union> set (boundary e) \<union> set (ghost e)
      = {0..<N} \<union> {N..<N + length (boundary e)}"
    by (simp only: sg)
  also have "\<dots> = {0..<N + length (boundary e)}" by auto
  finally have c: "set (interior e @ boundary e @ ghost e) = {0..<length (nodes e)}"
    unfolding ln by (simp add: Un_assoc)
  have sh: "weight_matrix x p orders coeffs n = Inr M \<Longrightarrow> nrows M = length x \<and> ncols M = length p"
    for x p orders coeffs n M
    using sc unfolding shape_contract_def by blast
  have shD: "nrows (D e) = length (interior e @ boundary e)" "ncols (D e) = length (nodes e)"
    using sh [OF wD] by simp_all
  have shdD: "nrows (dD e) = length (boundary e)" "ncols (dD e) = length (nodes e)"
    using sh [OF wdD] by simp_all
  show "wf_env e"
    unfolding wf_env_def using d c shD shdD by (simp add: g ub)
  show "length v = 2 * (length (interior e) + length (boundary e))"
    using cnt by (simp add: v hstack_def)
  show "length (interior e) + length (boundary e) = N" by (rule cnt)
qed

lemma weight_matrix3_shape: "shape_contract weight_matrix3"
  by (auto simp: shape_contract_def weight_matrix3_def)

lemma min_spacing_two: "min_spacing [(0, 0), (1, 0)] = Inr 1"
  by (simp add: min_spacing_def neighbors_dist_def euclid_dist_def get_col_def np_min_def)

lemma script_setup_env3:
  "script_setup 2 [(0, 0), (1, 0)] [- 1, 0] [(1, 0)] weight_matrix3
     = Inr (env3, hstack (map u_init_at [(0, 0), (1, 0)]) [0, 0])"
proof -
  have nz: "nonzero (map (\<lambda>s. s = - 1) [- 1, 0 :: int]) = [0]"
    "nonzero (map (\<lambda>s. 0 \<le> s) [- 1, 0 :: int]) = [1]"
    by (simp_all add: nonzero_def upt_rec)
  have bn: "boundary_normals [(1, 0)] [- 1, 0] [Suc 0] = Inr [(1, 0)]"
    by (simp add: boundary_normals_def get_rows_def get_rows_int_def wrap_index_def)
  have r2: "replicate 2 (0::real) = [0, 0]" by (simp add: numeral_2_eq_2)
  have g2: "[2..<2 + length [1::nat]] = [2]" by (simp add: upt_rec)
  show ?thesis
    unfolding script_setup_def Let_def nz
    by (simp add: bn min_spacing_two get_rows_def ghost_points_def weight_matrix3_def env3_def
        r2 g2)
qed

subsection \<open>The result of the evaluator, entry by entry\<close>

lemma mat_vec_nth_sum:
  "i < nrows M \<Longrightarrow> mat_vec M x ! i = (\<Sum>j<ncols M. coef M i j * x ! j)"
proof -
  assume i: "i < nrows M"
  have "sum_list (map (\<lambda>j. coef M i j * x ! j) [0..<ncols M])
      = (\<Sum>j\<in>set [0..<ncols M]. coef M i j * x ! j)"
    by (rule sum_list_distinct_conv_sum_set) simp
  also have "\<dots> = (\<Sum>j<ncols M. coef M i j * x ! j)"
    by (simp add: atLeast0LessThan)
  finally show ?thesis using i by (simp add: mat_vec_nth)
qed

lemma f_valid_explicit:
  assumes wf: "wf_env e" and se: "solves_exactly spsolve (ghost_matrix e)"
    and lv: "length v = 2 * (length (interior e) + length (boundary e))"
  shows "\<exists>r u. f e spsolve junk t v = Inr r \<and> length r = length v \<and>
    (\<forall>i<length (interior e) + length (boundary e).
        r ! i = v ! (length (interior e) + length (boundary e) + i)) \<and>
    (\<forall>i<length (interior e) + length (boundary e).
        r ! (length (interior e) + length (boundary e) + i)
          = (\<Sum>j<length (nodes e). coef (D e) i j * u ! j)) \<and>
    length u = length (nodes e) \<and>
    (\<forall>k<length (interior e) + length (boundary e).
        u ! ((interior e @ boundary e) ! k) = v ! k) \<and>
    (\<forall>i<length (boundary e).
        (\<Sum>k<length (ghost e). coef (dD e) i (ghost e ! k) * u ! (ghost e ! k))
          = u_bnd e ! i
            - (\<Sum>k<length (interior e) + length (boundary e).
                 coef (dD e) i ((interior e @ boundary e) ! k) * v ! k)) \<and>
    (\<exists>A b. spsolve A b = Inr (map ((!) u) (ghost e)) \<and>
       nrows A = length (boundary e) \<and> ncols A = length (ghost e) \<and>
       (\<forall>i k. coef A i k = coef (dD e) i (ghost e ! k)) \<and>
       length b = length (boundary e) \<and>
       (\<forall>i<length (boundary e).
          b ! i = u_bnd e ! i
            - (\<Sum>k<length (interior e) + length (boundary e).
                 coef (dD e) i ((interior e @ boundary e) ! k) * v ! k)))"
proof -
  let ?ib = "interior e @ boundary e"
  let ?m = "length (interior e) + length (boundary e)"
  let ?nb = "length (boundary e)"
  have lv': "length v = 2 * length ?ib" using lv by simp
  have half: "length v div 2 = ?m" using lv by simp
  from f_valid [OF wf se lv', of junk t] obtain u x where
    fv: "f e spsolve junk t v = Inr (hstack (drop ?m v) (mat_vec (D e) u))"
    and lu: "length u = length (nodes e)"
    and uib: "map ((!) u) ?ib = take ?m v"
    and ugh: "map ((!) u) (ghost e) = x"
    and sx: "spsolve (ghost_matrix e) (ghost_rhs e (take ?m v)) = Inr x"
    and lx: "length x = length (ghost e)"
    and ax: "mat_vec (ghost_matrix e) x = ghost_rhs e (take ?m v)"
    unfolding half by blast
  let ?r = "hstack (drop ?m v) (mat_vec (D e) u)"
  have nrD: "nrows (D e) = ?m" and ncD: "ncols (D e) = length (nodes e)"
    and nrdD: "nrows (dD e) = ?nb" and lub: "length (u_bnd e) = ?nb"
    using wf by (simp_all add: wf_env_def)
  have ld: "length (drop ?m v) = ?m" using lv by simp
  have lr: "length ?r = length v"
    using lv by (simp add: hstack_def length_mat_vec nrD)
  have r1: "\<forall>i<?m. ?r ! i = v ! (?m + i)"
    using ld lv by (simp add: hstack_def nth_append)
  have r2: "\<forall>i<?m. ?r ! (?m + i) = (\<Sum>j<length (nodes e). coef (D e) i j * u ! j)"
  proof (intro allI impI)
    fix i assume i: "i < ?m"
    have "?r ! (?m + i) = mat_vec (D e) u ! i"
      using ld by (simp add: hstack_def nth_append)
    also have "\<dots> = (\<Sum>j<ncols (D e). coef (D e) i j * u ! j)"
      using i nrD by (intro mat_vec_nth_sum) simp
    finally show "?r ! (?m + i) = (\<Sum>j<length (nodes e). coef (D e) i j * u ! j)"
      by (simp only: ncD)
  qed
  have u1: "\<forall>k<?m. u ! (?ib ! k) = v ! k"
  proof (intro allI impI)
    fix k assume k: "k < ?m"
    then have "map ((!) u) ?ib ! k = u ! (?ib ! k)" by (simp del: map_append)
    moreover have "take ?m v ! k = v ! k" using k by simp
    ultimately show "u ! (?ib ! k) = v ! k" using uib by simp
  qed
  have known: "mat_vec (known_matrix e) (take ?m v) ! i
      = (\<Sum>k<?m. coef (dD e) i (?ib ! k) * v ! k)" if i: "i < ?nb" for i
  proof -
    have "mat_vec (known_matrix e) (take ?m v) ! i
        = (\<Sum>k<ncols (known_matrix e). coef (known_matrix e) i k * take ?m v ! k)"
      using i nrdD by (intro mat_vec_nth_sum) (simp add: known_matrix_def take_cols_def)
    also have "\<dots> = (\<Sum>k<?m. coef (dD e) i (?ib ! k) * v ! k)"
      by (rule sum.cong) (simp_all add: known_matrix_def take_cols_def)
    finally show ?thesis .
  qed
  have rhs: "ghost_rhs e (take ?m v) ! i
      = u_bnd e ! i - (\<Sum>k<?m. coef (dD e) i (?ib ! k) * v ! k)" if i: "i < ?nb" for i
    using i lub nrdD known [OF i]
    by (simp add: ghost_rhs_def length_mat_vec known_matrix_def take_cols_def)
  have lrhs: "length (ghost_rhs e (take ?m v)) = ?nb"
    using wf by (rule length_ghost_rhs)
  have bsys: "\<forall>i<?nb. (\<Sum>k<length (ghost e). coef (dD e) i (ghost e ! k) * u ! (ghost e ! k))
      = u_bnd e ! i - (\<Sum>k<?m. coef (dD e) i (?ib ! k) * v ! k)"
  proof (intro allI impI)
    fix i assume i: "i < ?nb"
    have "mat_vec (ghost_matrix e) x ! i
        = (\<Sum>k<ncols (ghost_matrix e). coef (ghost_matrix e) i k * x ! k)"
      using i nrdD by (intro mat_vec_nth_sum) (simp add: ghost_matrix_shape)
    also have "\<dots> = (\<Sum>k<length (ghost e). coef (dD e) i (ghost e ! k) * u ! (ghost e ! k))"
      by (rule sum.cong) (auto simp: ghost_matrix_def take_cols_def ugh [symmetric])
    finally show "(\<Sum>k<length (ghost e). coef (dD e) i (ghost e ! k) * u ! (ghost e ! k))
        = u_bnd e ! i - (\<Sum>k<?m. coef (dD e) i (?ib ! k) * v ! k)"
      using rhs [OF i] by (simp add: ax)
  qed
  have sol: "\<exists>A b. spsolve A b = Inr (map ((!) u) (ghost e)) \<and>
       nrows A = ?nb \<and> ncols A = length (ghost e) \<and>
       (\<forall>i k. coef A i k = coef (dD e) i (ghost e ! k)) \<and>
       length b = ?nb \<and>
       (\<forall>i<?nb. b ! i = u_bnd e ! i - (\<Sum>k<?m. coef (dD e) i (?ib ! k) * v ! k))"
  proof (intro exI conjI)
    show "spsolve (ghost_matrix e) (ghost_rhs e (take ?m v)) = Inr (map ((!) u) (ghost e))"
      using sx ugh by simp
    show "nrows (ghost_matrix e) = ?nb" by (simp add: ghost_matrix_shape nrdD)
    show "ncols (ghost_matrix e) = length (ghost e)" by (simp add: ghost_matrix_shape)
    show "\<forall>i k. coef (ghost_matrix e) i k = coef (dD e) i (ghost e ! k)"
      by (simp add: ghost_matrix_def take_cols_def)
    show "length (ghost_rhs e (take ?m v)) = ?nb" by (rule lrhs)
    show "\<forall>i<?nb. ghost_rhs e (take ?m v) ! i
        = u_bnd e ! i - (\<Sum>k<?m. coef (dD e) i (?ib ! k) * v ! k)"
      using rhs by blast
  qed
  from fv lr r1 r2 lu u1 bsys sol show ?thesis by blast
qed

subsection \<open>The integration loop\<close>

lemma keeps_lengthD:
  assumes "keeps_length ig"
    and "\<And>t y r. length y = length y0 \<Longrightarrow> g t y = Inr r \<Longrightarrow> length r = length y0"
    and "ig g t0 y0 t1 = Inr y1"
  shows "length y1 = length y0"
  by (rule assms(1) [unfolded keeps_length_def, rule_format, OF _ assms(3)])
    (rule assms(2), assumption+)

lemma euler_step_keeps_length: "keeps_length euler_step"
  unfolding keeps_length_def
proof (intro allI impI)
  fix g :: rhs and t0 t1 :: real and y0 y1 :: vec
  assume h: "\<forall>t y r. length y = length y0 \<longrightarrow> g t y = Inr r \<longrightarrow> length r = length y0"
    and s: "euler_step g t0 y0 t1 = Inr y1"
  from s obtain k where k: "g t0 y0 = Inr k"
    and y1: "y1 = map2 (\<lambda>y d. y + (t1 - t0) * d) y0 k"
    by (auto simp: euler_step_def split: sum.splits)
  have "length k = length y0" using h k by blast
  then show "length y1 = length y0" by (simp add: y1)
qed

lemma integrate_all_length:
  assumes kl: "keeps_length ig"
    and g: "\<And>t y r. length y = n \<Longrightarrow> g t y = Inr r \<Longrightarrow> length r = n"
  shows "length y = n \<Longrightarrow> integrate_all ig g t0 y ts soln = Inr (y', soln') \<Longrightarrow> length y' = n"
proof (induction ts arbitrary: t0 y soln)
  case Nil
  then show ?case by simp
next
  case (Cons t ts)
  from Cons.prems(2) obtain y1 v0 v1 where
    s: "ig g t0 y t = Inr y1" and r: "reshape2 y1 = Inr (v0, v1)"
    and rest: "integrate_all ig g t y1 ts (soln @ [v0]) = Inr (y', soln')"
    by (auto split: sum.splits)
  have "length y1 = length y"
    using kl _ s by (rule keeps_lengthD) (simp add: g Cons.prems(1))
  then have "length y1 = n" using Cons.prems(1) by simp
  then show ?case using Cons.IH rest by blast
qed

lemma integrate_all_soln:
  assumes kl: "keeps_length ig"
    and g: "\<And>t y r. length y = 2 * m \<Longrightarrow> g t y = Inr r \<Longrightarrow> length r = 2 * m"
  shows "length y = 2 * m \<Longrightarrow> \<forall>s\<in>set soln. length s = m \<Longrightarrow>
    integrate_all ig g t0 y ts soln = Inr (y', soln') \<Longrightarrow> \<forall>s\<in>set soln'. length s = m"
proof (induction ts arbitrary: t0 y soln)
  case Nil
  then show ?case by simp
next
  case (Cons t ts)
  from Cons.prems(3) obtain y1 v0 v1 where
    s: "ig g t0 y t = Inr y1" and r: "reshape2 y1 = Inr (v0, v1)"
    and rest: "integrate_all ig g t y1 ts (soln @ [v0]) = Inr (y', soln')"
    by (auto split: sum.splits)
  have "length y1 = length y"
    using kl _ s by (rule keeps_lengthD) (simp add: g Cons.prems(1))
  then have l1: "length y1 = 2 * m" using Cons.prems(1) by simp
  have "length v0 = m" using reshape2_Inr [OF r] l1 by auto
  then have "\<forall>s\<in>set (soln @ [v0]). length s = m" using Cons.prems(2) by simp
  then show ?case using Cons.IH [OF l1 _ rest] by blast
qed

lemma integrate_all_prefix:
  "integrate_all ig g t0 y (ts1 @ ts2) soln = Inr (y', soln') \<Longrightarrow>
   \<exists>y1 soln1. integrate_all ig g t0 y ts1 soln = Inr (y1, soln1)"
proof (induction ts1 arbitrary: t0 y soln)
  case Nil
  then show ?case by simp
next
  case (Cons t ts1)
  from Cons.prems obtain y1 v0 v1 where
    s: "ig g t0 y t = Inr y1" and r: "reshape2 y1 = Inr (v0, v1)"
    and rest: "integrate_all ig g t y1 (ts1 @ ts2) (soln @ [v0]) = Inr (y', soln')"
    by (auto split: sum.splits)
  from Cons.IH [OF rest] show ?case by (simp add: s r)
qed

lemma integrate_all_count:
  "integrate_all ig g t0 y ts soln = Inr (y', soln') \<Longrightarrow>
   length soln' = length soln + length ts"
proof (induction ts arbitrary: t0 y soln)
  case Nil
  then show ?case by simp
next
  case (Cons t ts)
  from Cons.prems obtain y1 v0 v1 where
    rest: "integrate_all ig g t y1 ts (soln @ [v0]) = Inr (y', soln')"
    by (auto split: sum.splits)
  from Cons.IH [OF rest] show ?case by simp
qed

lemma f_returns_same_length:
  assumes wf: "wf_env e" and se: "solves_exactly spsolve (ghost_matrix e)"
    and lw: "length w = 2 * (length (interior e) + length (boundary e))"
  shows "\<exists>r. f e spsolve junk t w = Inr r \<and> length r = length w"
  using f_valid_explicit [OF wf se lw, of junk t] by blast

lemma script_state_length:
  assumes s: "script_setup N nodes0 smpid snormals weight_matrix = Inr (e, v)"
    and sc: "shape_contract weight_matrix"
    and mc: "menodes_contract N nodes0 smpid"
    and kl: "keeps_length ig"
  shows "length v = 2 * (length (interior e) + length (boundary e)) \<and>
    (\<forall>t w r. f e spsolve junk t w = Inr r \<longrightarrow> length r = length w) \<and>
    (solves_exactly spsolve (ghost_matrix e) \<longrightarrow>
      (\<forall>t w. length w = 2 * (length (interior e) + length (boundary e)) \<longrightarrow>
         (\<exists>r. f e spsolve junk t w = Inr r \<and> length r = length w))) \<and>
    (\<forall>t0 ts1 ts2 y soln.
       integrate_all ig (f e spsolve junk) t0 v (ts1 @ ts2) [] = Inr (y, soln) \<longrightarrow>
       (\<exists>y1 soln1. integrate_all ig (f e spsolve junk) t0 v ts1 [] = Inr (y1, soln1) \<and>
          length y1 = 2 * (length (interior e) + length (boundary e)) \<and>
          length soln1 = length ts1 \<and>
          (\<forall>d\<in>set soln1. length d = length (interior e) + length (boundary e))))"
proof -
  let ?m = "length (interior e) + length (boundary e)"
  have wf: "wf_env e" and lv: "length v = 2 * ?m"
    using script_setup_wf [OF s sc mc] by simp_all
  have fl: "f e spsolve junk t w = Inr r \<Longrightarrow> length r = length w" for t w r
    using wf by (rule f_length)
  have ok: "solves_exactly spsolve (ghost_matrix e) \<longrightarrow>
      (\<forall>t w. length w = 2 * ?m \<longrightarrow> (\<exists>r. f e spsolve junk t w = Inr r \<and> length r = length w))"
    using f_returns_same_length [OF wf] by blast
  have g: "length y = 2 * ?m \<Longrightarrow> f e spsolve junk t y = Inr r \<Longrightarrow> length r = 2 * ?m" for t y r
    using fl [of t y r] by simp
  have run: "\<exists>y1 soln1. integrate_all ig (f e spsolve junk) t0 v ts1 [] = Inr (y1, soln1) \<and>
          length y1 = 2 * ?m \<and> length soln1 = length ts1 \<and> (\<forall>d\<in>set soln1. length d = ?m)"
    if r: "integrate_all ig (f e spsolve junk) t0 v (ts1 @ ts2) [] = Inr (y, soln)"
    for t0 ts1 ts2 y soln
  proof -
    from integrate_all_prefix [OF r] obtain y1 soln1 where
      p: "integrate_all ig (f e spsolve junk) t0 v ts1 [] = Inr (y1, soln1)" by blast
    have "length y1 = 2 * ?m"
      using kl g lv p by (rule integrate_all_length)
    moreover have "length soln1 = length ts1"
      using integrate_all_count [OF p] by simp
    moreover have "\<forall>d\<in>set soln1. length d = ?m"
      using integrate_all_soln [OF kl g lv _ p] by simp
    ultimately show ?thesis using p by blast
  qed
  from lv fl ok run show ?thesis by blast
qed

lemma menodes_contract_two: "menodes_contract 2 [(0, 0), (1, 0)] [- 1, 0]"
  by (simp add: menodes_contract_def)

lemma integrate_all_example:
  "integrate_all euler_step (f env3 spsolve_1x1 (\<lambda>_. 0)) 0 [1, 2, 0, 0] [1 / 2] []
     = Inr ([1, 2, 1, - 1 / 2], [[1, 2]])"
  by (simp add: euler_step_def f_def reshape2_def ghost_fill_def set_items_def broadcast_to_def
      np_empty_def get_cols_def take_cols_def dot_def mat_vec_def np_sub_def spsolve_1x1_def
      hstack_def env3_def upt_rec)

lemma integrate_all_env3:
  "integrate_all euler_step (f env3 spsolve_1x1 (\<lambda>_. 0)) 0 (hstack [a, b] [0, 0]) [1 / 2] []
     = Inr ([a, b, b - a, (a - b) / 2], [[a, b]])"
  by (simp add: euler_step_def f_def reshape2_def ghost_fill_def set_items_def broadcast_to_def
      np_empty_def get_cols_def take_cols_def dot_def mat_vec_def np_sub_def spsolve_1x1_def
      hstack_def env3_def upt_rec)

subsection \<open>Node spacing and ghost positions\<close>

lemma insort_above_min:
  fixes a :: real
  assumes "a \<le> x" and "\<forall>z\<in>set zs. a \<le> z"
  shows "insort x (a # zs) = a # insort x zs"
proof (cases "x \<le> a")
  case True
  with assms(1) have "x = a" by simp
  then show ?thesis using assms(2) by (simp add: insort_is_Cons)
next
  case False
  then show ?thesis by simp
qed

lemma sort_min_inside:
  fixes a :: real
  assumes "\<forall>z\<in>set xs. a \<le> z" and "\<forall>z\<in>set ys. a \<le> z"
  shows "sort (xs @ a # ys) = a # sort (xs @ ys)"
  using assms(1)
proof (induction xs)
  case Nil
  show ?case using assms(2) by (simp add: insort_is_Cons)
next
  case (Cons x xs)
  then have ih: "sort (xs @ a # ys) = a # sort (xs @ ys)" and ax: "a \<le> x"
    and rest: "\<forall>z\<in>set (sort (xs @ ys)). a \<le> z"
    using assms(2) by auto
  show ?case using insort_above_min [OF ax rest] by (simp add: ih)
qed

lemma hd_sort_Min:
  fixes xs :: "real list"
  assumes "xs \<noteq> []"
  shows "sort xs ! 0 = Min (set xs)"
proof -
  obtain y ys where s: "sort xs = y # ys"
    using assms by (cases "sort xs") (auto dest: arg_cong [where f = length])
  have "sorted (sort xs)" by (rule sorted_sort)
  then have srt: "sorted (y # ys)" by (simp only: s)
  have "set (sort xs) = set xs" by simp
  then have st: "set xs = set (y # ys)" by (simp only: s)
  have "Min (set xs) = y"
  proof (rule Min_eqI)
    show "finite (set xs)" by simp
    show "z \<in> set xs \<Longrightarrow> y \<le> z" for z using srt st by auto
    show "y \<in> set xs" using st by simp
  qed
  then show ?thesis by (simp add: s)
qed

lemma euclid_dist_self: "euclid_dist p p = 0"
  by (simp add: euclid_dist_def)

lemma euclid_dist_nonneg: "0 \<le> euclid_dist p q"
  by (simp add: euclid_dist_def)

lemma second_smallest_distance:
  assumes i: "i < length pts" and n: "2 \<le> length pts"
  shows "sort (map (euclid_dist (pts ! i)) pts) ! 1
     = Min ((\<lambda>j. euclid_dist (pts ! i) (pts ! j)) ` ({..<length pts} - {i}))"
proof -
  let ?n = "length pts"
  let ?d = "\<lambda>j. euclid_dist (pts ! i) (pts ! j)"
  have "map (euclid_dist (pts ! i)) pts = map (euclid_dist (pts ! i)) (map ((!) pts) [0..<?n])"
    by (simp only: map_nth)
  also have "\<dots> = map ?d [0..<?n]" by simp
  also have "[0..<?n] = [0..<i] @ i # [Suc i..<?n]"
    using i by (metis le0 less_imp_le_nat upt_add_eq_append upt_conv_Cons le_add_diff_inverse)
  finally have ds: "map (euclid_dist (pts ! i)) pts
      = map ?d [0..<i] @ 0 # map ?d [Suc i..<?n]"
    by (simp add: euclid_dist_self)
  let ?rest = "map ?d [0..<i] @ map ?d [Suc i..<?n]"
  have "sort (map (euclid_dist (pts ! i)) pts) = 0 # sort ?rest"
    unfolding ds by (rule sort_min_inside) (simp_all add: euclid_dist_nonneg)
  then have "sort (map (euclid_dist (pts ! i)) pts) ! 1 = sort ?rest ! 0" by simp
  moreover have ne: "?rest \<noteq> []" using i n by auto
  moreover have "set ?rest = ?d ` ({..<?n} - {i})"
  proof -
    have "set [0..<i] \<union> set [Suc i..<?n] = {..<?n} - {i}" using i by auto
    then show ?thesis by (simp add: image_Un [symmetric] del: set_upt)
  qed
  ultimately show ?thesis using hd_sort_Min [OF ne] by simp
qed

lemma np_min_Inr: "np_min xs = Inr m \<Longrightarrow> xs \<noteq> [] \<and> m = Min (set xs)"
proof (cases xs)
  case Nil
  assume "np_min xs = Inr m"
  with Nil show ?thesis by (simp add: np_min_def)
next
  case (Cons x ys)
  assume "np_min xs = Inr m"
  with Cons have "m = fold min ys x" by (simp add: np_min_def)
  also have "\<dots> = Min (set (x # ys))" by (rule Min.set_eq_fold [symmetric])
  finally show ?thesis using Cons by simp
qed

lemma get_col_Inr:
  "get_col rows j = Inr col \<Longrightarrow> col = map (\<lambda>r. r ! j) rows \<and> (\<forall>r\<in>set rows. j < length r)"
  by (auto simp: get_col_def list_all_iff split: if_splits)

lemma min_spacing_spec:
  assumes ms: "min_spacing pts = Inr dx"
  shows "2 \<le> length pts"
    and "dx = Min ((\<lambda>i. Min ((\<lambda>j. euclid_dist (pts ! i) (pts ! j)) ` ({..<length pts} - {i})))
                  ` {..<length pts})"
proof -
  let ?n = "length pts"
  let ?row = "\<lambda>p. take 2 (sort (map (euclid_dist p) pts))"
  from ms obtain col where gc: "get_col (neighbors_dist pts 2) 1 = Inr col"
    and mn: "np_min col = Inr dx"
    by (auto simp: min_spacing_def split: sum.splits)
  have col: "col = map (\<lambda>r. r ! 1) (map ?row pts)"
    and rows: "\<forall>r\<in>set (map ?row pts). 1 < length r"
    using get_col_Inr [OF gc] by (simp_all add: neighbors_dist_def)
  have ne: "col \<noteq> []" and dx: "dx = Min (set col)"
    using np_min_Inr [OF mn] by simp_all
  from ne col have pne: "pts \<noteq> []" by auto
  then have "?row (hd pts) \<in> set (map ?row pts)" by simp
  then have "1 < length (?row (hd pts))" using rows by blast
  then show n: "2 \<le> ?n" by simp
  have "col = map (\<lambda>p. sort (map (euclid_dist p) pts) ! 1) pts"
    by (simp add: col)
  then have "set col = (\<lambda>p. sort (map (euclid_dist p) pts) ! 1) ` set pts" by simp
  also have "set pts = (\<lambda>i. pts ! i) ` {..<?n}"
    by (auto simp: set_conv_nth)
  also have "(\<lambda>p. sort (map (euclid_dist p) pts) ! 1) ` ((\<lambda>i. pts ! i) ` {..<?n})
      = (\<lambda>i. sort (map (euclid_dist (pts ! i)) pts) ! 1) ` {..<?n}"
    by (simp add: image_image)
  also have "\<dots> = (\<lambda>i. Min ((\<lambda>j. euclid_dist (pts ! i) (pts ! j)) ` ({..<?n} - {i}))) ` {..<?n}"
    using second_smallest_distance [OF _ n] by (intro image_cong refl) simp
  finally show "dx = Min ((\<lambda>i. Min ((\<lambda>j. euclid_dist (pts ! i) (pts ! j)) ` ({..<?n} - {i})))
                  ` {..<?n})"
    by (simp only: dx)
qed

lemma boundary_normals_nth:
  assumes bn: "boundary_normals snormals smpid bnd = Inr normals"
    and k: "k < length bnd" and pos: "0 \<le> smpid ! (bnd ! k)"
  shows "normals ! k = snormals ! nat (smpid ! (bnd ! k))"
proof -
  from bn have ids: "get_rows_int snormals (map ((!) smpid) bnd) = Inr normals"
    by (auto simp: boundary_normals_def split: sum.splits dest!: get_rows_Inr)
  then have "normals = map (\<lambda>i. snormals ! nat (wrap_index (length snormals) i))
      (map ((!) smpid) bnd)"
    by (auto simp: get_rows_int_def split: if_splits)
  then show ?thesis using k pos by (simp add: wrap_index_def)
qed

lemma ghost_points_nth:
  assumes "k < length bpts" and "k < length normals"
  shows "ghost_points bpts dx normals ! k
    = (fst (bpts ! k) + 0.5 * dx * fst (normals ! k), snd (bpts ! k) + 0.5 * dx * snd (normals ! k))"
  using assms by (simp add: ghost_points_def)

lemma nonzero_filter:
  "nonzero (map P xs) = filter (\<lambda>i. P (xs ! i)) [0..<length xs]"
  unfolding nonzero_def by (auto intro!: filter_cong)

lemma ghost_nodes_explicit:
  assumes s: "script_setup N nodes0 smpid snormals weight_matrix = Inr (e, v)"
    and ln: "length nodes0 = N" and ls: "length smpid = N"
  shows "boundary e = filter (\<lambda>i. 0 \<le> smpid ! i) [0..<N] \<and>
    length (nodes e) = N + length (boundary e) \<and>
    take N (nodes e) = nodes0 \<and>
    ghost e = [N..<N + length (boundary e)] \<and>
    2 \<le> N \<and>
    (\<exists>dx. dx = Min ((\<lambda>i. Min ((\<lambda>j. sqrt ((fst (nodes0 ! i) - fst (nodes0 ! j))\<^sup>2
                                         + (snd (nodes0 ! i) - snd (nodes0 ! j))\<^sup>2))
                              ` ({..<N} - {i}))) ` {..<N}) \<and>
      (\<forall>k<length (boundary e).
         nodes e ! (ghost e ! k)
           = (fst (nodes0 ! (boundary e ! k))
                + 0.5 * dx * fst (snormals ! nat (smpid ! (boundary e ! k))),
              snd (nodes0 ! (boundary e ! k))
                + 0.5 * dx * snd (snormals ! nat (smpid ! (boundary e ! k))))))"
proof -
  from script_setup_Inr [OF s] obtain normals dx where
    bn: "boundary_normals snormals smpid (boundary e) = Inr normals"
    and ms: "min_spacing nodes0 = Inr dx"
    and b: "boundary e = nonzero (map (\<lambda>s. 0 \<le> s) smpid)"
    and g: "ghost e = [N..<N + length (boundary e)]"
    and nd: "nodes e = nodes0 @ ghost_points (map ((!) nodes0) (boundary e)) dx normals"
    by blast
  let ?nb = "length (boundary e)"
  have bf: "boundary e = filter (\<lambda>i. 0 \<le> smpid ! i) [0..<N]"
    unfolding b nonzero_filter ls ..
  have lnorm: "length normals = ?nb" using bn by (rule boundary_normals_length)
  have lnodes: "length (nodes e) = N + ?nb"
    using script_setup_nodes_length [OF s] ln by simp
  have tk: "take N (nodes e) = nodes0" using ln by (simp add: nd)
  have n2: "2 \<le> N" using min_spacing_spec(1) [OF ms] ln by simp
  have dx: "dx = Min ((\<lambda>i. Min ((\<lambda>j. sqrt ((fst (nodes0 ! i) - fst (nodes0 ! j))\<^sup>2
                                         + (snd (nodes0 ! i) - snd (nodes0 ! j))\<^sup>2))
                              ` ({..<N} - {i}))) ` {..<N})"
    using min_spacing_spec(2) [OF ms] by (simp only: ln euclid_dist_def)
  have pos: "nodes e ! (ghost e ! k)
      = (fst (nodes0 ! (boundary e ! k))
           + 0.5 * dx * fst (snormals ! nat (smpid ! (boundary e ! k))),
         snd (nodes0 ! (boundary e ! k))
           + 0.5 * dx * snd (snormals ! nat (smpid ! (boundary e ! k))))"
    if k: "k < ?nb" for k
  proof -
    have "boundary e ! k \<in> set (boundary e)" using k by simp
    then have p: "0 \<le> smpid ! (boundary e ! k)" by (simp add: bf)
    have nk: "normals ! k = snormals ! nat (smpid ! (boundary e ! k))"
      using bn k p by (rule boundary_normals_nth)
    have "ghost e ! k = N + k" using k by (simp add: g)
    then have "nodes e ! (ghost e ! k)
        = ghost_points (map ((!) nodes0) (boundary e)) dx normals ! k"
      using ln by (simp add: nd nth_append)
    also have "\<dots> = (fst (map ((!) nodes0) (boundary e) ! k) + 0.5 * dx * fst (normals ! k),
        snd (map ((!) nodes0) (boundary e) ! k) + 0.5 * dx * snd (normals ! k))"
      using k lnorm by (intro ghost_points_nth) simp_all
    finally show ?thesis using k by (simp add: nk)
  qed
  from bf lnodes tk g n2 dx pos show ?thesis by blast
qed

subsection \<open>What a call writes\<close>

lemma length_write_items: "length (write_items h u idx xs) = length h"
  by (induction h u idx xs rule: write_items.induct) simp_all

lemma write_items_other: "b \<noteq> a_buf u \<Longrightarrow> write_items h u idx xs ! b = h ! b"
  by (induction h u idx xs rule: write_items.induct) simp_all

lemma set_items_st_frame:
  assumes "set_items_st h u idx vals = Inr h'"
  shows "length h' = length h" and "b \<noteq> a_buf u \<Longrightarrow> h' ! b = h ! b"
  using assms
  by (auto simp: set_items_st_def length_write_items write_items_other
      split: sum.splits if_splits)

lemma extends_refl: "extends h h"
  by (simp add: extends_def)

lemma extends_alloc: "alloc h xs = (u, h1) \<Longrightarrow> extends h h1 \<and> a_buf u = length h"
  by (auto simp: alloc_def extends_def nth_append)

lemma extends_set_items:
  assumes "extends h hh" and "set_items_st hh u idx vals = Inr h'" and "length h \<le> a_buf u"
  shows "extends h h'"
  using assms set_items_st_frame [OF assms(2)]
  by (auto simp: extends_def)

lemma f_store_heap:
  "extends (w_heap w) (w_heap (snd (f_store w spsolve junk t v)))"
proof (cases "reshape2_st v")
  case (Inl err)
  then show ?thesis by (simp add: f_store_def extends_refl)
next
  case (Inr p)
  obtain v0 v1 where p: "p = (v0, v1)" by (cases p)
  obtain u h1 where al: "alloc (w_heap w) (np_empty junk (length (w_nodes w))) = (u, h1)"
    by (cases "alloc (w_heap w) (np_empty junk (length (w_nodes w)))")
  have e1: "extends (w_heap w) h1" and bu: "a_buf u = length (w_heap w)"
    using extends_alloc [OF al] by simp_all
  have e2: "extends (w_heap w) h2" if "set_items_st h1 u idx vals = Inr h2" for idx vals h2
    by (rule extends_set_items [OF e1 that]) (simp add: bu)
  have e3: "extends (w_heap w) h3"
    if "set_items_st h1 u idx vals = Inr h2" "set_items_st h2 u idx' vals' = Inr h3"
    for idx vals h2 idx' vals' h3
    by (rule extends_set_items [OF e2 [OF that(1)] that(2)]) (simp add: bu)
  have e4: "extends (w_heap w) h4" if "extends (w_heap w) h3" "alloc h3 xs = (r, h4)" for h3 xs r h4
    using that by (auto simp: alloc_def extends_def nth_append)
  show ?thesis
    unfolding f_store_def Inr p al
    by (auto split: sum.splits prod.splits intro: e1 e2 e3 e4)
qed

lemma f_store_globals:
  "w_nodes (snd (f_store w spsolve junk t v)) = w_nodes w \<and>
   w_interior (snd (f_store w spsolve junk t v)) = w_interior w \<and>
   w_boundary (snd (f_store w spsolve junk t v)) = w_boundary w \<and>
   w_ghost (snd (f_store w spsolve junk t v)) = w_ghost w \<and>
   w_D (snd (f_store w spsolve junk t v)) = w_D w \<and>
   w_dD (snd (f_store w spsolve junk t v)) = w_dD w \<and>
   w_u_bnd (snd (f_store w spsolve junk t v)) = w_u_bnd w"
  unfolding f_store_def by (auto split: sum.splits prod.splits)

lemma set_items_length: "set_items z idx vals = Inr z' \<Longrightarrow> length z' = length z"
  by (auto simp: set_items_def length_scatter split: sum.splits if_splits)

lemma write_items_scatter:
  "a_off u = 0 \<Longrightarrow> a_buf u < length h \<Longrightarrow>
   write_items h u idx xs = h[a_buf u := scatter (h ! a_buf u) idx xs]"
proof (induction h u idx xs rule: write_items.induct)
  case (1 h u i idx x xs)
  then show ?case by simp
qed simp_all

lemma set_items_st_fresh:
  "set_items_st (h @ [z]) \<lparr>a_buf = length h, a_off = 0, a_len = length z\<rparr> idx vals
     = (case set_items z idx vals of Inl e \<Rightarrow> Inl e | Inr z' \<Rightarrow> Inr (h @ [z']))"
  by (simp add: set_items_st_def set_items_def write_items_scatter split: sum.splits)

lemma read_arr_old: "a_buf x < length h \<Longrightarrow> read_arr (h @ hs) x = read_arr h x"
  by (simp add: read_arr_def nth_append)

lemma read_arr_fresh:
  "read_arr (h @ [z]) \<lparr>a_buf = length h, a_off = 0, a_len = length z\<rparr> = z"
  by (simp add: read_arr_def)

lemma length_read_arr: "valid_arr h x \<Longrightarrow> length (read_arr h x) = a_len x"
  by (auto simp add: read_arr_def valid_arr_def min_def)

lemma reshape2_st_views:
  assumes "valid_arr h v" and "even (a_len v)"
  shows "read_arr h (v\<lparr>a_len := a_len v div 2\<rparr>) = take (a_len v div 2) (read_arr h v)"
    and "read_arr h (v\<lparr>a_off := a_off v + a_len v div 2, a_len := a_len v div 2\<rparr>)
      = drop (a_len v div 2) (read_arr h v)"
proof -
  show "read_arr h (v\<lparr>a_len := a_len v div 2\<rparr>) = take (a_len v div 2) (read_arr h v)"
    by (simp add: read_arr_def min_def)
  have "a_len v - a_len v div 2 = a_len v div 2" using assms(2) by presburger
  then show "read_arr h (v\<lparr>a_off := a_off v + a_len v div 2, a_len := a_len v div 2\<rparr>)
      = drop (a_len v div 2) (read_arr h v)"
    by (simp add: read_arr_def drop_take add.commute)
qed

lemma read_arr_fresh2:
  "read_arr (h @ [a, z]) \<lparr>a_buf = Suc (length h), a_off = 0, a_len = length z\<rparr> = z"
  by (simp add: read_arr_def nth_append)

lemma f_store_refines:
  assumes v: "valid_arr (w_heap w) v" and b: "valid_arr (w_heap w) (w_u_bnd w)"
  shows "map_sum id (read_arr (w_heap (snd (f_store w spsolve junk t v))))
           (fst (f_store w spsolve junk t v))
         = f (env_of w) spsolve junk t (read_arr (w_heap w) v)"
proof (cases "even (a_len v)")
  case False
  then show ?thesis
    using v by (simp add: f_store_def f_def reshape2_st_def reshape2_def length_read_arr)
next
  case True
  let ?h = "w_heap w"
  let ?n = "length (w_nodes w)"
  let ?u = "\<lparr>a_buf = length ?h, a_off = 0, a_len = ?n\<rparr>"
  have bufs: "a_buf v < length ?h" "a_buf (w_u_bnd w) < length ?h"
    using v b by (simp_all add: valid_arr_def)
  have st: "\<And>z idx vals. length z = ?n \<Longrightarrow>
      set_items_st (?h @ [z]) ?u idx vals
        = (case set_items z idx vals of Inl e \<Rightarrow> Inl e | Inr z' \<Rightarrow> Inr (?h @ [z']))"
    using set_items_st_fresh [of ?h] by metis
  have rd: "\<And>z. length z = ?n \<Longrightarrow> read_arr (?h @ [z]) ?u = z"
    using read_arr_fresh [of ?h] by metis
  have le: "length (np_empty junk ?n) = ?n" by (simp add: np_empty_def)
  let ?V0 = "take (a_len v div 2) (read_arr ?h v)"
  show ?thesis
  proof (cases "set_items (np_empty junk ?n) (w_interior w @ w_boundary w) ?V0")
    case (Inl err)
    then show ?thesis
      using True bufs
      unfolding f_store_def f_def ghost_fill_def reshape2_st_def reshape2_def alloc_def env_of_def
      by (simp add: length_read_arr [OF v] reshape2_st_views [OF v True] st le read_arr_old)
  next
    case (Inr u1)
    then have l1: "length u1 = ?n"
      using set_items_length [of "np_empty junk ?n" _ _ u1] le by simp
    have l2: "\<And>x u2. set_items u1 (w_ghost w) x = Inr u2 \<Longrightarrow> length u2 = ?n"
      using set_items_length [of u1] l1 by simp
    show ?thesis
      using True bufs Inr
      unfolding f_store_def f_def ghost_fill_def reshape2_st_def reshape2_def alloc_def env_of_def
      by (auto simp: length_read_arr [OF v] reshape2_st_views [OF v True] st [OF le] st [OF l1]
            rd read_arr_old read_arr_fresh read_arr_fresh2 l2 le
          split: sum.splits)
  qed
qed

lemma extends_trans: "extends h h1 \<Longrightarrow> extends h1 h2 \<Longrightarrow> extends h h2"
  by (auto simp: extends_def)

lemma f_calls_frame:
  "w_nodes (f_calls w spsolve junk rs) = w_nodes w \<and>
   w_interior (f_calls w spsolve junk rs) = w_interior w \<and>
   w_boundary (f_calls w spsolve junk rs) = w_boundary w \<and>
   w_ghost (f_calls w spsolve junk rs) = w_ghost w \<and>
   w_D (f_calls w spsolve junk rs) = w_D w \<and>
   w_dD (f_calls w spsolve junk rs) = w_dD w \<and>
   w_u_bnd (f_calls w spsolve junk rs) = w_u_bnd w \<and>
   extends (w_heap w) (w_heap (f_calls w spsolve junk rs))"
proof (induction w spsolve junk rs rule: f_calls.induct)
  case (1 w spsolve junk)
  show ?case by (simp add: extends_refl)
next
  case (2 w spsolve junk t v rs)
  have "extends (w_heap w) (w_heap (f_calls (snd (f_store w spsolve junk t v)) spsolve junk rs))"
    using extends_trans [OF f_store_heap [of w spsolve junk t v]] 2 by blast
  then show ?case
    using 2 f_store_globals [of w spsolve junk t v] by simp
next
  case (3 w spsolve junk xs rs)
  have "extends (w_heap w) (snd (alloc (w_heap w) xs))"
    by (simp add: alloc_def extends_def nth_append)
  then have "extends (w_heap w) (w_heap (f_calls (w\<lparr>w_heap := snd (alloc (w_heap w) xs)\<rparr>) spsolve junk rs))"
    using extends_trans 3 by fastforce
  then show ?case using 3 by simp
qed

lemma world3_env: "env_of world3 = env3"
  by (simp add: env_of_def world3_def env3_def read_arr_def)

lemma f_store_world3:
  "f_store world3 spsolve_1x1 (\<lambda>_. 0) 0 v3
     = (Inr \<lparr>a_buf = 3, a_off = 0, a_len = 4\<rparr>,
        world3\<lparr>w_heap := [[0], [1, 2, 3, 4], [1, 2, 2], [3, 4, 2, - 1]]\<rparr>)"
  by (simp add: f_store_def world3_def v3_def reshape2_st_def alloc_def np_empty_def
      set_items_st_def broadcast_to_def read_arr_def get_cols_def take_cols_def dot_def
      mat_vec_def np_sub_def spsolve_1x1_def hstack_def upt_rec)

section \<open>The claims\<close>

text \<open>
  Claim C1. For a state vector \<open>v\<close> of length 2 * (interior count + boundary count),
  \<open>f\<close> returns a vector \<open>r\<close> of the same length: its first half is the velocity half of
  \<open>v\<close>, its second half is the Laplacian operator \<open>D\<close> applied to the full displacement
  array \<open>u\<close>. The interior and boundary entries of \<open>u\<close> are the displacement half of \<open>v\<close>;
  its ghost entries are what the solver returned for the boundary system, and they
  satisfy \<open>dD[:, ghost] u[ghost] = u_bnd - dD[:, interior+boundary] v[0]\<close>.
\<close>

theorem f_velocity_and_laplacian:
  assumes "wf_env e" and "solves_exactly spsolve (ghost_matrix e)"
    and "length v = 2 * (length (interior e) + length (boundary e))"
  shows "\<exists>r u. f e spsolve junk t v = Inr r \<and> length r = length v \<and>
    (\<forall>i<length (interior e) + length (boundary e).
        r ! i = v ! (length (interior e) + length (boundary e) + i)) \<and>
    (\<forall>i<length (interior e) + length (boundary e).
        r ! (length (interior e) + length (boundary e) + i)
          = (\<Sum>j<length (nodes e). coef (D e) i j * u ! j)) \<and>
    length u = length (nodes e) \<and>
    (\<forall>k<length (interior e) + length (boundary e).
        u ! ((interior e @ boundary e) ! k) = v ! k) \<and>
    (\<forall>i<length (boundary e).
        (\<Sum>k<length (ghost e). coef (dD e) i (ghost e ! k) * u ! (ghost e ! k))
          = u_bnd e ! i
            - (\<Sum>k<length (interior e) + length (boundary e).
                 coef (dD e) i ((interior e @ boundary e) ! k) * v ! k)) \<and>
    (\<exists>A b. spsolve A b = Inr (map ((!) u) (ghost e)) \<and>
       nrows A = length (boundary e) \<and> ncols A = length (ghost e) \<and>
       (\<forall>i k. coef A i k = coef (dD e) i (ghost e ! k)) \<and>
       length b = length (boundary e) \<and>
       (\<forall>i<length (boundary e).
          b ! i = u_bnd e ! i
            - (\<Sum>k<length (interior e) + length (boundary e).
                 coef (dD e) i ((interior e @ boundary e) ! k) * v ! k)))"
  using assms by (rule f_valid_explicit)

theorem f_velocity_and_laplacian_witness:
  "wf_env env3 \<and> solves_exactly spsolve_1x1 (ghost_matrix env3) \<and>
   length [1, 2, 3, 4 :: real] = 2 * (length (interior env3) + length (boundary env3)) \<and>
   (\<exists>r u. f env3 spsolve_1x1 (\<lambda>_. 0) 0 [1, 2, 3, 4 :: real] = Inr r \<and> length r = length [1, 2, 3, 4 :: real] \<and>
    (\<forall>i<length (interior env3) + length (boundary env3).
        r ! i = [1, 2, 3, 4 :: real] ! (length (interior env3) + length (boundary env3) + i)) \<and>
    (\<forall>i<length (interior env3) + length (boundary env3).
        r ! (length (interior env3) + length (boundary env3) + i)
          = (\<Sum>j<length (nodes env3). coef (D env3) i j * u ! j)) \<and>
    length u = length (nodes env3) \<and>
    (\<forall>k<length (interior env3) + length (boundary env3).
        u ! ((interior env3 @ boundary env3) ! k) = [1, 2, 3, 4 :: real] ! k) \<and>
    (\<forall>i<length (boundary env3).
        (\<Sum>k<length (ghost env3). coef (dD env3) i (ghost env3 ! k) * u ! (ghost env3 ! k))
          = u_bnd env3 ! i
            - (\<Sum>k<length (interior env3) + length (boundary env3).
                 coef (dD env3) i ((interior env3 @ boundary env3) ! k) * [1, 2, 3, 4 :: real] ! k)) \<and>
    (\<exists>A b. spsolve_1x1 A b = Inr (map ((!) u) (ghost env3)) \<and>
       nrows A = length (boundary env3) \<and> ncols A = length (ghost env3) \<and>
       (\<forall>i k. coef A i k = coef (dD env3) i (ghost env3 ! k)) \<and>
       length b = length (boundary env3) \<and>
       (\<forall>i<length (boundary env3).
          b ! i = u_bnd env3 ! i
            - (\<Sum>k<length (interior env3) + length (boundary env3).
                 coef (dD env3) i ((interior env3 @ boundary env3) ! k) * [1, 2, 3, 4 :: real] ! k))))"
proof -
  have l: "length [1, 2, 3, 4 :: real] = 2 * (length (interior env3) + length (boundary env3))"
    by (simp add: env3_def)
  show ?thesis
    using f_velocity_and_laplacian [OF env3_wf env3_solves l, of "\<lambda>_. 0" 0] env3_wf env3_solves l
    by blast
qed

text \<open>
  Claim C5. If a full displacement field satisfies the boundary condition
  \<open>dD u_full = u_bnd\<close> exactly and the ghost matrix is non-singular, then the ghost
  solve inside \<open>f\<close>, started from the interior and boundary part of the field, returns
  the field itself: the ghost values are recovered and the residual
  \<open>dD u - u_bnd\<close> of the reconstructed field is zero.
\<close>

theorem ghost_solve_recovers_field:
  assumes "wf_env e" and "solves_exactly spsolve (ghost_matrix e)"
    and "nonsingular (ghost_matrix e)"
    and "length u_full = length (nodes e)"
    and "mat_vec (dD e) u_full = u_bnd e"
  shows "\<exists>u. ghost_fill e spsolve junk (map ((!) u_full) (interior e @ boundary e)) = Inr u \<and>
    map ((!) u) (ghost e) = map ((!) u_full) (ghost e) \<and> u = u_full \<and>
    np_sub (mat_vec (dD e) u) (u_bnd e) = Inr (replicate (length (boundary e)) 0)"
proof -
  have "ghost_fill e spsolve junk (map ((!) u_full) (interior e @ boundary e)) = Inr u_full"
    using assms by (rule ghost_fill_recovers)
  moreover have "np_sub (mat_vec (dD e) u_full) (u_bnd e) = Inr (replicate (length (boundary e)) 0)"
  proof -
    have l: "length (u_bnd e) = length (boundary e)" using assms(1) by (simp add: wf_env_def)
    have "map2 (-) (u_bnd e) (u_bnd e) = replicate (length (boundary e)) 0"
      using l by (intro nth_equalityI) simp_all
    then show ?thesis by (simp add: assms(5) np_sub_def)
  qed
  ultimately show ?thesis by simp
qed

theorem ghost_solve_recovers_field_witness:
  "wf_env env3 \<and> solves_exactly spsolve_1x1 (ghost_matrix env3) \<and>
   nonsingular (ghost_matrix env3) \<and> length [1, 2, 2 :: real] = length (nodes env3) \<and>
   mat_vec (dD env3) [1, 2, 2] = u_bnd env3 \<and>
   (\<exists>u. ghost_fill env3 spsolve_1x1 (\<lambda>_. 0)
           (map ((!) [1, 2, 2]) (interior env3 @ boundary env3)) = Inr u \<and>
    map ((!) u) (ghost env3) = map ((!) [1, 2, 2]) (ghost env3) \<and> u = [1, 2, 2] \<and>
    np_sub (mat_vec (dD env3) u) (u_bnd env3) = Inr (replicate (length (boundary env3)) 0))"
proof -
  have l: "length [1, 2, 2 :: real] = length (nodes env3)" by (simp add: env3_def)
  have bc: "mat_vec (dD env3) [1, 2, 2] = u_bnd env3"
    by (simp add: mat_vec_def env3_def upt_rec)
  show ?thesis
    using ghost_solve_recovers_field [OF env3_wf env3_solves env3_nonsingular l bc, of "\<lambda>_. 0"]
      env3_wf env3_solves env3_nonsingular l bc
    by blast
qed

text \<open>
  Claim C7. With zero boundary values and a non-singular ghost matrix, the all-zero
  state vector is mapped to the all-zero vector of the same length, at every time.
\<close>

theorem f_zero_state:
  assumes "wf_env e" and "solves_exactly spsolve (ghost_matrix e)"
    and "nonsingular (ghost_matrix e)"
    and "u_bnd e = replicate (length (boundary e)) 0"
  shows "f e spsolve junk t (replicate (2 * (length (interior e) + length (boundary e))) 0)
     = Inr (replicate (2 * (length (interior e) + length (boundary e))) 0)"
  using f_zero [OF assms, of junk t] by simp

theorem f_zero_state_witness:
  "wf_env env3 \<and> solves_exactly spsolve_1x1 (ghost_matrix env3) \<and>
   nonsingular (ghost_matrix env3) \<and> u_bnd env3 = replicate (length (boundary env3)) 0 \<and>
   f env3 spsolve_1x1 (\<lambda>_. 1) 3 [0, 0, 0, 0] = Inr [0, 0, 0, 0]"
proof -
  have ub: "u_bnd env3 = replicate (length (boundary env3)) 0" by (simp add: env3_def)
  have r: "replicate (2 * (length (interior env3) + length (boundary env3))) (0::real)
      = [0, 0, 0, 0]"
    by (simp add: env3_def numeral_eq_Suc)
  show ?thesis
    using f_zero_state [OF env3_wf env3_solves env3_nonsingular ub, of "\<lambda>_. 1" 3]
      env3_wf env3_solves env3_nonsingular ub
    by (simp only: r simp_thms)
qed

text \<open>
  Claim C10. The result of \<open>f\<close> does not depend on its time argument, nor on the
  contents that \<open>np.empty\<close> happens to return: two calls with the same state vector give
  the same result.
\<close>

theorem f_independent_of_time:
  "wf_env e \<Longrightarrow> f e spsolve junk1 t1 v = f e spsolve junk2 t2 v"
  by (rule f_time_junk_independent)

theorem f_independent_of_time_witness:
  "wf_env env3 \<and>
   f env3 spsolve_1x1 (\<lambda>_. 0) 0 [1, 2, 3, 4] = f env3 spsolve_1x1 (\<lambda>_. 7) 5 [1, 2, 3, 4]"
  using f_independent_of_time [OF env3_wf] env3_wf by blast

text \<open>
  Claim C3. With zero boundary values and a non-singular ghost matrix, \<open>f\<close> is linear in
  the state vector: for state vectors \<open>v1\<close>, \<open>v2\<close> of length
  2 * (interior count + boundary count), all scalars \<open>a\<close>, \<open>b\<close> and every time \<open>t\<close>,
  \<open>f(t, a*v1 + b*v2) = a*f(t, v1) + b*f(t, v2)\<close>.
\<close>

theorem f_linear:
  assumes "wf_env e" and "solves_exactly spsolve (ghost_matrix e)"
    and "nonsingular (ghost_matrix e)"
    and "u_bnd e = replicate (length (boundary e)) 0"
    and "length v1 = 2 * (length (interior e) + length (boundary e))"
    and "length v2 = 2 * (length (interior e) + length (boundary e))"
  shows "\<exists>r1 r2. f e spsolve junk t v1 = Inr r1 \<and> f e spsolve junk t v2 = Inr r2 \<and>
    f e spsolve junk t (lincomb a v1 b v2) = Inr (lincomb a r1 b r2)"
  using assms f_linear_aux [of e spsolve v1 v2 junk t a b] by simp

theorem f_linear_witness:
  "wf_env env3 \<and> solves_exactly spsolve_1x1 (ghost_matrix env3) \<and>
   nonsingular (ghost_matrix env3) \<and> u_bnd env3 = replicate (length (boundary env3)) 0 \<and>
   length [1, 2, 3, 4 :: real] = 2 * (length (interior env3) + length (boundary env3)) \<and>
   length [0, 1, 0, 1 :: real] = 2 * (length (interior env3) + length (boundary env3)) \<and>
   (\<exists>r1 r2. f env3 spsolve_1x1 (\<lambda>_. 0) 0 [1, 2, 3, 4] = Inr r1 \<and>
      f env3 spsolve_1x1 (\<lambda>_. 0) 0 [0, 1, 0, 1] = Inr r2 \<and>
      f env3 spsolve_1x1 (\<lambda>_. 0) 0 (lincomb 2 [1, 2, 3, 4] 3 [0, 1, 0, 1])
        = Inr (lincomb 2 r1 3 r2))"
proof -
  have ub: "u_bnd env3 = replicate (length (boundary env3)) 0" by (simp add: env3_def)
  have l1: "length [1, 2, 3, 4 :: real] = 2 * (length (interior env3) + length (boundary env3))"
    by (simp add: env3_def)
  have l2: "length [0, 1, 0, 1 :: real] = 2 * (length (interior env3) + length (boundary env3))"
    by (simp add: env3_def)
  show ?thesis
    using f_linear [OF env3_wf env3_solves env3_nonsingular ub l1 l2, of "\<lambda>_. 0" 0 2 3]
      env3_wf env3_solves env3_nonsingular ub l1 l2
    by blast
qed

text \<open>
  Claim C6. The ghost system solved inside \<open>f\<close> is square by construction: the set-up
  creates one ghost index per boundary node, and \<open>dD[:, ghost]\<close> has one row per
  boundary node and one column per ghost node.
\<close>

theorem ghost_system_square:
  assumes "script_setup N nodes0 smpid snormals weight_matrix = Inr (e, v)"
    and "shape_contract weight_matrix" and "length nodes0 = N"
  shows "length (ghost e) = length (boundary e) \<and>
    (\<exists>A. get_cols (dD e) (ghost e) = Inr A \<and> nrows A = length (boundary e) \<and>
      ncols A = length (ghost e) \<and> nrows A = ncols A)"
proof -
  from script_setup_Inr [OF assms(1)] obtain normals dx where
    g: "ghost e = [N..<N + length (boundary e)]"
    and wdD: "weight_matrix (map ((!) (nodes e)) (boundary e)) (nodes e) [(1, 0), (0, 1)]
      (Some [map fst normals, map snd normals]) 30 = Inr (dD e)"
    by blast
  have sh: "nrows (dD e) = length (boundary e)" "ncols (dD e) = length (nodes e)"
    using assms(2) wdD unfolding shape_contract_def by fastforce+
  have ln: "length (nodes e) = N + length (boundary e)"
    using script_setup_nodes_length [OF assms(1)] assms(3) by simp
  have lg: "length (ghost e) = length (boundary e)" by (simp add: g)
  have "list_all (\<lambda>j. j < ncols (dD e)) (ghost e)"
    by (simp add: sh ln g list_all_iff)
  then have "get_cols (dD e) (ghost e) = Inr (take_cols (dD e) (ghost e))"
    by (simp add: get_cols_def)
  moreover have "nrows (take_cols (dD e) (ghost e)) = length (boundary e)"
    "ncols (take_cols (dD e) (ghost e)) = length (ghost e)"
    by (simp_all add: take_cols_def sh)
  ultimately show ?thesis using lg by simp
qed

theorem ghost_system_square_witness:
  "script_setup 2 [(0, 0), (1, 0)] [- 1, 0] [(1, 0)] weight_matrix3
     = Inr (env3, hstack (map u_init_at [(0, 0), (1, 0)]) [0, 0]) \<and>
   shape_contract weight_matrix3 \<and> length [(0, 0), (1, 0) :: point] = 2 \<and>
   length (ghost env3) = length (boundary env3) \<and>
   (\<exists>A. get_cols (dD env3) (ghost env3) = Inr A \<and> nrows A = length (boundary env3) \<and>
      ncols A = length (ghost env3) \<and> nrows A = ncols A)"
proof -
  have l: "length [(0, 0), (1, 0) :: point] = 2" by simp
  show ?thesis
    using ghost_system_square [OF script_setup_env3 weight_matrix3_shape l]
      script_setup_env3 weight_matrix3_shape l
    by blast
qed

text \<open>
  Claim C4. Whenever \<open>f\<close> returns, the derivative has the length of the state vector it
  was given, and on a state vector of length 2 * (interior count + boundary count) it does
  return (with an exact solver). The state vector built by the set-up has that length,
  and so has the integrator's state after every checkpoint of the integration loop; the
  displacement rows collected in \<open>soln\<close>, one per checkpoint, have half that length.
\<close>

theorem state_vector_length:
  assumes "script_setup N nodes0 smpid snormals weight_matrix = Inr (e, v)"
    and "shape_contract weight_matrix"
    and "menodes_contract N nodes0 smpid"
    and "keeps_length ig"
  shows "length v = 2 * (length (interior e) + length (boundary e)) \<and>
    (\<forall>t w r. f e spsolve junk t w = Inr r \<longrightarrow> length r = length w) \<and>
    (solves_exactly spsolve (ghost_matrix e) \<longrightarrow>
      (\<forall>t w. length w = 2 * (length (interior e) + length (boundary e)) \<longrightarrow>
         (\<exists>r. f e spsolve junk t w = Inr r \<and> length r = length w))) \<and>
    (\<forall>t0 ts1 ts2 y soln.
       integrate_all ig (f e spsolve junk) t0 v (ts1 @ ts2) [] = Inr (y, soln) \<longrightarrow>
       (\<exists>y1 soln1. integrate_all ig (f e spsolve junk) t0 v ts1 [] = Inr (y1, soln1) \<and>
          length y1 = 2 * (length (interior e) + length (boundary e)) \<and>
          length soln1 = length ts1 \<and>
          (\<forall>d\<in>set soln1. length d = length (interior e) + length (boundary e))))"
  using assms by (rule script_state_length)

theorem state_vector_length_witness:
  "script_setup 2 [(0, 0), (1, 0)] [- 1, 0] [(1, 0)] weight_matrix3
     = Inr (env3, hstack (map u_init_at [(0, 0), (1, 0)]) [0, 0]) \<and>
   shape_contract weight_matrix3 \<and> menodes_contract 2 [(0, 0), (1, 0)] [- 1, 0] \<and>
   keeps_length euler_step \<and>
   length (hstack (map u_init_at [(0, 0), (1, 0)]) [0, 0])
     = 2 * (length (interior env3) + length (boundary env3)) \<and>
   (\<exists>r. f env3 spsolve_1x1 (\<lambda>_. 0) 0 (hstack (map u_init_at [(0, 0), (1, 0)]) [0, 0]) = Inr r \<and>
      length r = length (hstack (map u_init_at [(0, 0), (1, 0)]) [0, 0])) \<and>
   (\<exists>y1 soln1. integrate_all euler_step (f env3 spsolve_1x1 (\<lambda>_. 0)) 0
           (hstack (map u_init_at [(0, 0), (1, 0)]) [0, 0]) [1 / 2] [] = Inr (y1, soln1) \<and>
      length y1 = 2 * (length (interior env3) + length (boundary env3)) \<and>
      length soln1 = length [1 / 2 :: real] \<and>
      (\<forall>d\<in>set soln1. length d = length (interior env3) + length (boundary env3)))"
proof -
  let ?v = "hstack (map u_init_at [(0, 0), (1, 0)]) [0, 0]"
  note c = state_vector_length [OF script_setup_env3 weight_matrix3_shape menodes_contract_two
      euler_step_keeps_length, of spsolve_1x1 "\<lambda>_. 0"]
  have lv: "length ?v = 2 * (length (interior env3) + length (boundary env3))"
    using c by (rule conjunct1)
  have "\<exists>r. f env3 spsolve_1x1 (\<lambda>_. 0) 0 ?v = Inr r \<and> length r = length ?v"
    using c env3_solves lv by blast
  moreover have run: "integrate_all euler_step (f env3 spsolve_1x1 (\<lambda>_. 0)) 0 ?v ([1 / 2] @ []) []
      = Inr ([u_init_at (0, 0), u_init_at (1, 0), u_init_at (1, 0) - u_init_at (0, 0),
              (u_init_at (0, 0) - u_init_at (1, 0)) / 2],
             [[u_init_at (0, 0), u_init_at (1, 0)]])"
    using integrate_all_env3 [of "u_init_at (0, 0)" "u_init_at (1, 0)"] by simp
  have "\<exists>y1 soln1. integrate_all euler_step (f env3 spsolve_1x1 (\<lambda>_. 0)) 0 ?v [1 / 2] []
         = Inr (y1, soln1) \<and>
      length y1 = 2 * (length (interior env3) + length (boundary env3)) \<and>
      length soln1 = length [1 / 2 :: real] \<and>
      (\<forall>d\<in>set soln1. length d = length (interior env3) + length (boundary env3))"
    using c run by blast
  ultimately show ?thesis
    using script_setup_env3 weight_matrix3_shape menodes_contract_two euler_step_keeps_length lv
    by blast
qed

text \<open>
  Claim C9. The set-up appends one ghost node per boundary node after the \<open>N\<close> original
  nodes, so the ghost indices are \<open>N, ..., N + len(boundary) - 1\<close>. The ghost node of a
  boundary node lies at the boundary node's position plus \<open>0.5*dx\<close> times the outward
  normal of the boundary segment the node belongs to, where \<open>dx\<close> is the minimum, over
  the \<open>N\<close> original nodes, of the distance from a node to the nearest other node.
\<close>

theorem ghost_node_construction:
  assumes "script_setup N nodes0 smpid snormals weight_matrix = Inr (e, v)"
    and "length nodes0 = N" and "length smpid = N"
  shows "boundary e = filter (\<lambda>i. 0 \<le> smpid ! i) [0..<N] \<and>
    length (nodes e) = N + length (boundary e) \<and>
    take N (nodes e) = nodes0 \<and>
    ghost e = [N..<N + length (boundary e)] \<and>
    2 \<le> N \<and>
    (\<exists>dx. dx = Min ((\<lambda>i. Min ((\<lambda>j. sqrt ((fst (nodes0 ! i) - fst (nodes0 ! j))\<^sup>2
                                         + (snd (nodes0 ! i) - snd (nodes0 ! j))\<^sup>2))
                              ` ({..<N} - {i}))) ` {..<N}) \<and>
      (\<forall>k<length (boundary e).
         nodes e ! (ghost e ! k)
           = (fst (nodes0 ! (boundary e ! k))
                + 0.5 * dx * fst (snormals ! nat (smpid ! (boundary e ! k))),
              snd (nodes0 ! (boundary e ! k))
                + 0.5 * dx * snd (snormals ! nat (smpid ! (boundary e ! k))))))"
  using assms by (rule ghost_nodes_explicit)

theorem ghost_node_construction_witness:
  "script_setup 2 [(0, 0), (1, 0)] [- 1, 0] [(1, 0)] weight_matrix3
     = Inr (env3, hstack (map u_init_at [(0, 0), (1, 0)]) [0, 0]) \<and>
   length [(0, 0), (1, 0) :: point] = 2 \<and> length [- 1, 0 :: int] = 2 \<and>
   boundary env3 = filter (\<lambda>i. 0 \<le> [- 1, 0 :: int] ! i) [0..<(2::nat)] \<and>
    length (nodes env3) = (2::nat) + length (boundary env3) \<and>
    take (2::nat) (nodes env3) = [(0, 0), (1, 0) :: point] \<and>
    ghost env3 = [(2::nat)..<(2::nat) + length (boundary env3)] \<and>
    2 \<le> (2::nat) \<and>
    (\<exists>dx. dx = Min ((\<lambda>i. Min ((\<lambda>j. sqrt ((fst ([(0, 0), (1, 0) :: point] ! i) - fst ([(0, 0), (1, 0) :: point] ! j))\<^sup>2
                                         + (snd ([(0, 0), (1, 0) :: point] ! i) - snd ([(0, 0), (1, 0) :: point] ! j))\<^sup>2))
                              ` ({..<(2::nat)} - {i}))) ` {..<(2::nat)}) \<and>
      (\<forall>k<length (boundary env3).
         nodes env3 ! (ghost env3 ! k)
           = (fst ([(0, 0), (1, 0) :: point] ! (boundary env3 ! k))
                + 0.5 * dx * fst ([(1, 0) :: point] ! nat ([- 1, 0 :: int] ! (boundary env3 ! k))),
              snd ([(0, 0), (1, 0) :: point] ! (boundary env3 ! k))
                + 0.5 * dx * snd ([(1, 0) :: point] ! nat ([- 1, 0 :: int] ! (boundary env3 ! k))))))"
proof -
  have l1: "length [(0, 0), (1, 0) :: point] = 2" and l2: "length [- 1, 0 :: int] = 2"
    by simp_all
  show ?thesis
    by (rule conjI [OF script_setup_env3 conjI [OF l1 conjI [OF l2
      ghost_node_construction [OF script_setup_env3 l1 l2]]]])
qed

text \<open>
  Claim C8. A call of \<open>f\<close> leaves the module data as it was. For a state vector and an
  array \<open>u_bnd\<close> that lie within the store, after the call the node array, the index
  lists \<open>interior\<close>, \<open>boundary\<close> and \<open>ghost\<close>, the operators \<open>D\<close> and \<open>dD\<close> and the
  array \<open>u_bnd\<close> are the ones from before the call; the store has not lost a buffer, and
  every buffer that existed before the call has the contents it had, so that each entry
  of \<open>u_bnd\<close> and each entry of the state vector passed in is unchanged: the call writes
  only into the arrays it creates itself. What the call returns, an error or the new
  array, is the value of \<open>f\<close> at the contents of the state vector.
\<close>

theorem f_leaves_module_data_unchanged:
  assumes "a_buf v < length (w_heap w)"
    and "a_off v + a_len v \<le> length (w_heap w ! a_buf v)"
    and "a_buf (w_u_bnd w) < length (w_heap w)"
    and "a_off (w_u_bnd w) + a_len (w_u_bnd w) \<le> length (w_heap w ! a_buf (w_u_bnd w))"
  shows "\<exists>res w'. f_store w spsolve junk t v = (res, w') \<and>
     w_nodes w' = w_nodes w \<and> w_interior w' = w_interior w \<and>
     w_boundary w' = w_boundary w \<and> w_ghost w' = w_ghost w \<and>
     w_D w' = w_D w \<and> w_dD w' = w_dD w \<and> w_u_bnd w' = w_u_bnd w \<and>
     length (w_heap w) \<le> length (w_heap w') \<and>
     (\<forall>b<length (w_heap w). w_heap w' ! b = w_heap w ! b) \<and>
     (\<forall>i<a_len (w_u_bnd w).
        w_heap w' ! a_buf (w_u_bnd w) ! (a_off (w_u_bnd w) + i)
          = w_heap w ! a_buf (w_u_bnd w) ! (a_off (w_u_bnd w) + i)) \<and>
     (\<forall>i<a_len v. w_heap w' ! a_buf v ! (a_off v + i) = w_heap w ! a_buf v ! (a_off v + i)) \<and>
     (case res of
        Inl err \<Rightarrow> f (env_of w) spsolve junk t (read_arr (w_heap w) v) = Inl err
      | Inr r \<Rightarrow> f (env_of w) spsolve junk t (read_arr (w_heap w) v)
                  = Inr (read_arr (w_heap w') r))"
proof -
  obtain res w' where rw: "f_store w spsolve junk t v = (res, w')"
    by (cases "f_store w spsolve junk t v")
  have g: "w_nodes w' = w_nodes w \<and> w_interior w' = w_interior w \<and>
     w_boundary w' = w_boundary w \<and> w_ghost w' = w_ghost w \<and>
     w_D w' = w_D w \<and> w_dD w' = w_dD w \<and> w_u_bnd w' = w_u_bnd w"
    using f_store_globals [of w spsolve junk t v] by (simp add: rw)
  have h: "length (w_heap w) \<le> length (w_heap w')"
    "\<forall>b<length (w_heap w). w_heap w' ! b = w_heap w ! b"
    using f_store_heap [of w spsolve junk t v] by (simp_all add: rw extends_def)
  have va: "valid_arr (w_heap w) v" "valid_arr (w_heap w) (w_u_bnd w)"
    using assms by (simp_all add: valid_arr_def)
  have "map_sum id (read_arr (w_heap w')) res = f (env_of w) spsolve junk t (read_arr (w_heap w) v)"
    using f_store_refines [OF va, of spsolve junk t] by (simp add: rw)
  then have r: "case res of
        Inl err \<Rightarrow> f (env_of w) spsolve junk t (read_arr (w_heap w) v) = Inl err
      | Inr r \<Rightarrow> f (env_of w) spsolve junk t (read_arr (w_heap w) v)
                  = Inr (read_arr (w_heap w') r)"
    by (cases res) simp_all
  have u: "\<forall>i<a_len (w_u_bnd w).
        w_heap w' ! a_buf (w_u_bnd w) ! (a_off (w_u_bnd w) + i)
          = w_heap w ! a_buf (w_u_bnd w) ! (a_off (w_u_bnd w) + i)"
    using h(2) assms(3) by simp
  have s: "\<forall>i<a_len v. w_heap w' ! a_buf v ! (a_off v + i) = w_heap w ! a_buf v ! (a_off v + i)"
    using h(2) assms(1) by simp
  show ?thesis
    using rw g h u s r by blast
qed

theorem f_leaves_module_data_unchanged_witness:
  "a_buf v3 < length (w_heap world3) \<and>
   a_off v3 + a_len v3 \<le> length (w_heap world3 ! a_buf v3) \<and>
   a_buf (w_u_bnd world3) < length (w_heap world3) \<and>
   a_off (w_u_bnd world3) + a_len (w_u_bnd world3)
     \<le> length (w_heap world3 ! a_buf (w_u_bnd world3)) \<and>
   (\<exists>res w'. f_store world3 spsolve_1x1 (\<lambda>_. 0) 0 v3 = (res, w') \<and>
     w_nodes w' = w_nodes world3 \<and> w_interior w' = w_interior world3 \<and>
     w_boundary w' = w_boundary world3 \<and> w_ghost w' = w_ghost world3 \<and>
     w_D w' = w_D world3 \<and> w_dD w' = w_dD world3 \<and> w_u_bnd w' = w_u_bnd world3 \<and>
     length (w_heap world3) \<le> length (w_heap w') \<and>
     (\<forall>b<length (w_heap world3). w_heap w' ! b = w_heap world3 ! b) \<and>
     (\<forall>i<a_len (w_u_bnd world3).
        w_heap w' ! a_buf (w_u_bnd world3) ! (a_off (w_u_bnd world3) + i)
          = w_heap world3 ! a_buf (w_u_bnd world3) ! (a_off (w_u_bnd world3) + i)) \<and>
     (\<forall>i<a_len v3.
        w_heap w' ! a_buf v3 ! (a_off v3 + i) = w_heap world3 ! a_buf v3 ! (a_off v3 + i)) \<and>
     (case res of
        Inl err \<Rightarrow> f (env_of world3) spsolve_1x1 (\<lambda>_. 0) 0 (read_arr (w_heap world3) v3) = Inl err
      | Inr r \<Rightarrow> f (env_of world3) spsolve_1x1 (\<lambda>_. 0) 0 (read_arr (w_heap world3) v3)
                  = Inr (read_arr (w_heap w') r)))"
proof -
  have a: "a_buf v3 < length (w_heap world3)"
    "a_off v3 + a_len v3 \<le> length (w_heap world3 ! a_buf v3)"
    "a_buf (w_u_bnd world3) < length (w_heap world3)"
    "a_off (w_u_bnd world3) + a_len (w_u_bnd world3)
       \<le> length (w_heap world3 ! a_buf (w_u_bnd world3))"
    by (simp_all add: world3_def v3_def)
  show ?thesis
    using f_leaves_module_data_unchanged [OF a, of spsolve_1x1 "\<lambda>_. 0" 0] a
    by blast
qed

end
